theory Spec2Isabelle
  imports Complex_Main "HOL-Library.Word" "HOL-Library.Char_ord" "HOL-Library.List_Lexorder"
    "HOL-Library.Multiset"
begin

unbundle bit_operations_syntax

section \<open>JavaScript values\<close>

text \<open>
  The values the pipeline handles are the results of \<^verbatim>\<open>JSON.parse\<close> (typed \<^verbatim>\<open>any\<close> in the
  source) and the \<^verbatim>\<open>undefined\<close> a missing property reads as. Strings are byte strings
  (UTF-8). An object is the list of its own properties in enumeration order
  (\<^verbatim>\<open>Object.keys\<close>); a JavaScript object never holds a key twice.
\<close>

datatype jsval =
    JNull
  | JUndefined
  | JBool bool
  | JNum rat
  | JStr string
  | JArr "jsval list"
  | JObj "(string \<times> jsval) list"

text \<open>Truthiness, as tested by \<^verbatim>\<open>!x\<close>, \<^verbatim>\<open>x || y\<close> and \<^verbatim>\<open>if (x)\<close>.\<close>

fun truthy :: "jsval \<Rightarrow> bool" where
  "truthy JNull = False"
| "truthy JUndefined = False"
| "truthy (JBool b) = b"
| "truthy (JNum n) = (n \<noteq> 0)"
| "truthy (JStr s) = (s \<noteq> [])"
| "truthy (JArr xs) = True"
| "truthy (JObj kvs) = True"

text \<open>
  Reading one of the properties the program reads (\<^verbatim>\<open>operationName\<close>, \<^verbatim>\<open>query\<close>,
  \<^verbatim>\<open>data\<close>, \<^verbatim>\<open>errors\<close>, \<^verbatim>\<open>message\<close>; none is defined on a prototype): on \<^verbatim>\<open>null\<close>
  and \<^verbatim>\<open>undefined\<close> the read throws a TypeError (\<open>None\<close>), on an object it is the
  property or \<^verbatim>\<open>undefined\<close>, on every other value it is \<^verbatim>\<open>undefined\<close>.
\<close>

fun get_prop :: "jsval \<Rightarrow> string \<Rightarrow> jsval option" where
  "get_prop JNull k = None"
| "get_prop JUndefined k = None"
| "get_prop (JObj kvs) k = Some (case map_of kvs k of Some v \<Rightarrow> v | None \<Rightarrow> JUndefined)"
| "get_prop v k = Some JUndefined"

text \<open>
  Membership in a \<^verbatim>\<open>Set\<close> and key lookup in a \<^verbatim>\<open>Map\<close> compare with SameValueZero:
  primitives by value, objects and arrays by reference. Every name the pipeline compares
  comes out of its own call of \<^verbatim>\<open>JSON.parse\<close>, so two object or array names are never
  the same reference.
\<close>

fun same_value_zero :: "jsval \<Rightarrow> jsval \<Rightarrow> bool" where
  "same_value_zero (JArr xs) b = False"
| "same_value_zero (JObj kvs) b = False"
| "same_value_zero a b = (a = b)"

definition set_has :: "jsval list \<Rightarrow> jsval \<Rightarrow> bool" where
  "set_has seen v = list_ex (\<lambda>x. same_value_zero x v) seen"

section \<open>The pattern that finds an operation name in query text\<close>

text \<open>
  \<^verbatim>\<open>/(?:query|mutation)\s+(\w+)/\<close>: the first position at which \<^verbatim>\<open>query\<close> or
  \<^verbatim>\<open>mutation\<close> is followed by at least one white-space character and then at least one
  word character; the capture is the longest run of word characters there. \<^verbatim>\<open>\s\<close> and
  \<^verbatim>\<open>\w\<close> are disjoint and the two keywords start with different letters, so the greedy
  match never backtracks into another match at the same position.
\<close>

definition is_word_char :: "char \<Rightarrow> bool" where
  "is_word_char c =
     (let n = (of_char c :: nat)
      in (48 \<le> n \<and> n \<le> 57) \<or> (65 \<le> n \<and> n \<le> 90) \<or> n = 95 \<or> (97 \<le> n \<and> n \<le> 122))"

definition starts_with :: "string \<Rightarrow> string \<Rightarrow> bool" where
  "starts_with p s = (take (length p) s = p)"

text \<open>The white-space code points of \<^verbatim>\<open>\s\<close>, each in UTF-8.\<close>

definition js_spaces :: "string list" where
  "js_spaces =
     [[CHR 0x09], [CHR 0x0A], [CHR 0x0B], [CHR 0x0C], [CHR 0x0D], [CHR 0x20],
      [CHR 0xC2, CHR 0xA0], [CHR 0xE1, CHR 0x9A, CHR 0x80],
      [CHR 0xE2, CHR 0x80, CHR 0x80], [CHR 0xE2, CHR 0x80, CHR 0x81],
      [CHR 0xE2, CHR 0x80, CHR 0x82], [CHR 0xE2, CHR 0x80, CHR 0x83],
      [CHR 0xE2, CHR 0x80, CHR 0x84], [CHR 0xE2, CHR 0x80, CHR 0x85],
      [CHR 0xE2, CHR 0x80, CHR 0x86], [CHR 0xE2, CHR 0x80, CHR 0x87],
      [CHR 0xE2, CHR 0x80, CHR 0x88], [CHR 0xE2, CHR 0x80, CHR 0x89],
      [CHR 0xE2, CHR 0x80, CHR 0x8A], [CHR 0xE2, CHR 0x80, CHR 0xA8],
      [CHR 0xE2, CHR 0x80, CHR 0xA9], [CHR 0xE2, CHR 0x80, CHR 0xAF],
      [CHR 0xE2, CHR 0x81, CHR 0x9F], [CHR 0xE3, CHR 0x80, CHR 0x80],
      [CHR 0xEF, CHR 0xBB, CHR 0xBF]]"

definition strip_space :: "string \<Rightarrow> string option" where
  "strip_space s =
     (case filter (\<lambda>p. starts_with p s) js_spaces of
        [] \<Rightarrow> None
      | p # ps \<Rightarrow> Some (drop (length p) s))"

text \<open>\<^verbatim>\<open>\s*\<close>, greedy; the fuel is the length of the text, which no run of spaces exceeds.\<close>

fun skip_spaces :: "nat \<Rightarrow> string \<Rightarrow> string" where
  "skip_spaces 0 s = s"
| "skip_spaces (Suc n) s = (case strip_space s of None \<Rightarrow> s | Some r \<Rightarrow> skip_spaces n r)"

definition match_here :: "string \<Rightarrow> string option" where
  "match_here s =
     (let after =
        (if starts_with ''query'' s then Some (drop 5 s)
         else if starts_with ''mutation'' s then Some (drop 8 s)
         else None)
      in case after of
           None \<Rightarrow> None
         | Some r \<Rightarrow>
             (case strip_space r of
                None \<Rightarrow> None
              | Some r1 \<Rightarrow>
                  (let w = takeWhile is_word_char (skip_spaces (length r1) r1)
                   in if w = [] then None else Some w)))"

fun operation_match :: "string \<Rightarrow> string option" where
  "operation_match [] = None"
| "operation_match (c # cs) =
     (case match_here (c # cs) of Some w \<Rightarrow> Some w | None \<Rightarrow> operation_match cs)"

section \<open>The archive and the operation extractor (mock-extractor.ts)\<close>

text \<open>
  \<^verbatim>\<open>HarEntry\<close>, flattened: \<open>request_url\<close> and \<open>request_method\<close> are
  \<^verbatim>\<open>request.url\<close> and \<^verbatim>\<open>request.method\<close>, \<open>postData\<close> is \<^verbatim>\<open>request.postData?.text\<close> and
  \<open>responseText\<close> is \<^verbatim>\<open>response.content.text\<close>, \<open>None\<close> when the property is absent.
\<close>

record har_entry =
  request_url :: string
  request_method :: string
  postData :: "string option"
  responseText :: "string option"

text \<open>
  What is at the archive's path: no file (\<^verbatim>\<open>readFile\<close> rejects), text that is not JSON
  (\<^verbatim>\<open>JSON.parse\<close> throws), a JSON value without a \<^verbatim>\<open>log\<close> object (reading
  \<^verbatim>\<open>har.log.entries\<close> throws), one whose \<^verbatim>\<open>log\<close> has no \<^verbatim>\<open>entries\<close>, or an archive
  with its entries in order.
\<close>

datatype har_source = Missing | NotJson | NoLog | NoEntries | Har "har_entry list"

datatype js_error = ENOENT | SyntaxError | TypeError

record graphql_operation =
  operationName :: jsval
  query :: jsval

text \<open>
  \<^verbatim>\<open>JSON.parse\<close> is a parameter of the model, \<open>None\<close> when it throws.

  The body of the \<^verbatim>\<open>try\<close> of \<^verbatim>\<open>extractOperationName\<close>; \<open>None\<close> when it throws
  (\<^verbatim>\<open>parsed\<close> is \<^verbatim>\<open>null\<close>, or \<^verbatim>\<open>parsed.query\<close> is truthy and has no \<^verbatim>\<open>match\<close>
  method).
\<close>

definition name_of_parsed :: "jsval \<Rightarrow> jsval option" where
  "name_of_parsed parsed =
     (case get_prop parsed ''operationName'' of
        None \<Rightarrow> None
      | Some n \<Rightarrow>
          if truthy n then Some n
          else (case get_prop parsed ''query'' of
                  None \<Rightarrow> None
                | Some q \<Rightarrow>
                    if truthy q then
                      (case q of
                         JStr s \<Rightarrow>
                           Some (case operation_match s of Some w \<Rightarrow> JStr w | None \<Rightarrow> JNull)
                       | _ \<Rightarrow> None)
                    else Some JNull))"

definition extractOperationName :: "(string \<Rightarrow> jsval option) \<Rightarrow> string option \<Rightarrow> jsval" where
  "extractOperationName parse pd =
     (case pd of
        None \<Rightarrow> JNull
      | Some body \<Rightarrow>
          if body = [] then JNull
          else (case (case parse body of None \<Rightarrow> None | Some parsed \<Rightarrow> name_of_parsed parsed) of
                  Some r \<Rightarrow> r
                | None \<Rightarrow> (case operation_match body of Some w \<Rightarrow> JStr w | None \<Rightarrow> JNull)))"

text \<open>
  One turn of the loop of \<^verbatim>\<open>extractGraphQLOperations\<close> up to the test of \<^verbatim>\<open>seen\<close>:
  the operation the entry stands for, \<open>None\<close> where the loop says \<^verbatim>\<open>continue\<close>.
\<close>

definition entry_operation :: "(string \<Rightarrow> jsval option) \<Rightarrow> har_entry \<Rightarrow> graphql_operation option" where
  "entry_operation parse entry =
     (if request_method entry \<noteq> ''POST'' then None
      else case postData entry of
        None \<Rightarrow> None
      | Some body \<Rightarrow>
          if body = [] then None
          else (case parse body of
                  None \<Rightarrow> None
                | Some parsed \<Rightarrow>
                    (case get_prop parsed ''operationName'' of
                       None \<Rightarrow> None
                     | Some n \<Rightarrow>
                         (let name = (if truthy n then n else extractOperationName parse (Some body))
                          in if \<not> truthy name \<or> name = JStr ''IntrospectionQuery'' then None
                             else Some \<lparr>operationName = name,
                                        query = (case get_prop parsed ''query'' of
                                                   Some q \<Rightarrow> q | None \<Rightarrow> JUndefined)\<rparr>))))"

fun operations_loop ::
  "(string \<Rightarrow> jsval option) \<Rightarrow> har_entry list \<Rightarrow> graphql_operation list \<Rightarrow> jsval list
    \<Rightarrow> graphql_operation list" where
  "operations_loop parse [] operations seen = operations"
| "operations_loop parse (entry # entries) operations seen =
     (case entry_operation parse entry of
        None \<Rightarrow> operations_loop parse entries operations seen
      | Some oper \<Rightarrow>
          if set_has seen (operationName oper) then operations_loop parse entries operations seen
          else operations_loop parse entries (operations @ [oper]) (seen @ [operationName oper]))"

definition extractGraphQLOperations ::
  "(string \<Rightarrow> jsval option) \<Rightarrow> har_source \<Rightarrow> graphql_operation list" where
  "extractGraphQLOperations parse src =
     (case src of
        Har entries \<Rightarrow> operations_loop parse entries [] []
      | Missing \<Rightarrow> []
      | NotJson \<Rightarrow> []
      | NoLog \<Rightarrow> []
      | NoEntries \<Rightarrow> [])"

text \<open>
  A \<^verbatim>\<open>Map\<close> keyed by names: its entries in insertion order. \<^verbatim>\<open>set\<close> on a key that is
  present replaces the value where the key stands.
\<close>

fun map_set :: "(jsval \<times> 'v) list \<Rightarrow> jsval \<Rightarrow> 'v \<Rightarrow> (jsval \<times> 'v) list" where
  "map_set [] k v = [(k, v)]"
| "map_set ((k', v') # m) k v =
     (if same_value_zero k' k then (k', v) # m else (k', v') # map_set m k v)"

fun map_get :: "(jsval \<times> 'v) list \<Rightarrow> jsval \<Rightarrow> 'v option" where
  "map_get [] k = None"
| "map_get ((k', v') # m) k = (if same_value_zero k' k then Some v' else map_get m k)"

definition map_has :: "(jsval \<times> 'v) list \<Rightarrow> jsval \<Rightarrow> bool" where
  "map_has m k = (map_get m k \<noteq> None)"

text \<open>One turn of the loop of \<^verbatim>\<open>extractGraphQLMocks\<close>.\<close>

definition mocks_step ::
  "(string \<Rightarrow> jsval option) \<Rightarrow> (jsval \<times> jsval) list \<Rightarrow> har_entry \<Rightarrow> (jsval \<times> jsval) list" where
  "mocks_step parse mocks entry =
     (if request_method entry \<noteq> ''POST'' then mocks
      else let name = extractOperationName parse (postData entry)
           in if \<not> truthy name then mocks
              else if name = JStr ''IntrospectionQuery'' then mocks
              else case responseText entry of
                     None \<Rightarrow> mocks
                   | Some rt \<Rightarrow>
                       if rt = [] then mocks
                       else (case parse rt of
                               Some response \<Rightarrow> map_set mocks name response
                             | None \<Rightarrow> mocks))"

fun mocks_loop ::
  "(string \<Rightarrow> jsval option) \<Rightarrow> har_entry list \<Rightarrow> (jsval \<times> jsval) list \<Rightarrow> (jsval \<times> jsval) list" where
  "mocks_loop parse [] mocks = mocks"
| "mocks_loop parse (entry # entries) mocks = mocks_loop parse entries (mocks_step parse mocks entry)"

definition extractGraphQLMocks ::
  "(string \<Rightarrow> jsval option) \<Rightarrow> har_source \<Rightarrow> js_error + (jsval \<times> jsval) list" where
  "extractGraphQLMocks parse src =
     (case src of
        Missing \<Rightarrow> Inl ENOENT
      | NotJson \<Rightarrow> Inl SyntaxError
      | NoLog \<Rightarrow> Inl TypeError
      | NoEntries \<Rightarrow> Inl TypeError
      | Har entries \<Rightarrow> Inr (mocks_loop parse entries []))"

section \<open>The archive merger (record-interactive.ts)\<close>

text \<open>
  \<^verbatim>\<open>parsed.operationName\<close> as both loops of \<^verbatim>\<open>mergeHarFiles\<close> read it: \<open>None\<close> when the
  entry has no body text, or the \<^verbatim>\<open>try\<close> throws (the text is not JSON, or is \<^verbatim>\<open>null\<close>).
\<close>

definition body_opName :: "(string \<Rightarrow> jsval option) \<Rightarrow> har_entry \<Rightarrow> jsval option" where
  "body_opName parse entry =
     (case postData entry of
        None \<Rightarrow> None
      | Some body \<Rightarrow>
          if body = [] then None
          else (case parse body of
                  None \<Rightarrow> None
                | Some parsed \<Rightarrow> get_prop parsed ''operationName''))"

definition newOpMap_step ::
  "(string \<Rightarrow> jsval option) \<Rightarrow> (jsval \<times> har_entry) list \<Rightarrow> har_entry \<Rightarrow> (jsval \<times> har_entry) list" where
  "newOpMap_step parse newOpMap entry =
     (case body_opName parse entry of
        None \<Rightarrow> newOpMap
      | Some opName \<Rightarrow>
          if truthy opName \<and> opName \<noteq> JStr ''IntrospectionQuery''
          then map_set newOpMap opName entry
          else newOpMap)"

definition build_newOpMap ::
  "(string \<Rightarrow> jsval option) \<Rightarrow> har_entry list \<Rightarrow> (jsval \<times> har_entry) list" where
  "build_newOpMap parse newEntries = foldl (newOpMap_step parse) [] newEntries"

text \<open>
  The walk over the existing entries: the state is \<^verbatim>\<open>finalEntries\<close> and
  \<^verbatim>\<open>processedOps\<close>.
\<close>

definition walk_step ::
  "(string \<Rightarrow> jsval option) \<Rightarrow> (jsval \<times> har_entry) list \<Rightarrow> har_entry list \<times> jsval list
    \<Rightarrow> har_entry \<Rightarrow> har_entry list \<times> jsval list" where
  "walk_step parse newOpMap st entry =
     (case st of (finalEntries, processedOps) \<Rightarrow>
        (case body_opName parse entry of
           None \<Rightarrow> (finalEntries @ [entry], processedOps)
         | Some opName \<Rightarrow>
             (case map_get newOpMap opName of
                Some e \<Rightarrow> (finalEntries @ [e], processedOps @ [opName])
              | None \<Rightarrow> (finalEntries @ [entry], processedOps))))"

definition append_new ::
  "(jsval \<times> har_entry) list \<Rightarrow> har_entry list \<times> jsval list \<Rightarrow> har_entry list" where
  "append_new newOpMap st =
     (case st of (finalEntries, processedOps) \<Rightarrow>
        foldl (\<lambda>fin (opName, entry). if \<not> set_has processedOps opName then fin @ [entry] else fin)
          finalEntries newOpMap)"

definition merge_entries ::
  "(string \<Rightarrow> jsval option) \<Rightarrow> har_entry list \<Rightarrow> har_entry list \<Rightarrow> har_entry list" where
  "merge_entries parse existingEntries newEntries =
     (let newOpMap = build_newOpMap parse newEntries
      in append_new newOpMap (foldl (walk_step parse newOpMap) ([], []) existingEntries))"

datatype merge_outcome =
    NoNewHar
  | NoNewOperations
  | MergeFailed
  | Merged "har_entry list"

text \<open>
  \<^verbatim>\<open>mergeHarFiles\<close> from what is at the two paths to what it does: \<open>Merged es\<close> writes an
  archive with the entries \<open>es\<close> to the archive's path; every other outcome writes
  nothing.
\<close>

definition mergeHarFiles ::
  "(string \<Rightarrow> jsval option) \<Rightarrow> har_source \<Rightarrow> har_source \<Rightarrow> merge_outcome" where
  "mergeHarFiles parse existing new =
     (case new of
        Missing \<Rightarrow> NoNewHar
      | NotJson \<Rightarrow> MergeFailed
      | _ \<Rightarrow>
          (let newOperations = extractGraphQLOperations parse new;
               userOperations =
                 filter (\<lambda>oper. operationName oper \<noteq> JStr ''IntrospectionQuery'') newOperations
           in if userOperations = [] then NoNewOperations
              else (case existing of
                      NoLog \<Rightarrow> MergeFailed
                    | Har existingEntries \<Rightarrow>
                        Merged (merge_entries parse existingEntries
                                  (case new of Har newEntries \<Rightarrow> newEntries | _ \<Rightarrow> []))
                    | _ \<Rightarrow>
                        Merged (merge_entries parse []
                                  (case new of Har newEntries \<Rightarrow> newEntries | _ \<Rightarrow> [])))))"

section \<open>What the extractor is specified to return\<close>

definition candidates :: "(string \<Rightarrow> jsval option) \<Rightarrow> har_entry list \<Rightarrow> graphql_operation list" where
  "candidates parse entries = List.map_filter (entry_operation parse) entries"

definition first_occurrences_from :: "jsval list \<Rightarrow> graphql_operation list \<Rightarrow> graphql_operation list" where
  "first_occurrences_from seen cs =
     map (\<lambda>j. cs ! j)
       (filter (\<lambda>j. \<not> set_has (seen @ map operationName (take j cs)) (operationName (cs ! j)))
          [0..<length cs])"

definition first_occurrences :: "graphql_operation list \<Rightarrow> graphql_operation list" where
  "first_occurrences cs =
     map (\<lambda>j. cs ! j)
       (filter (\<lambda>j. \<not> set_has (map operationName (take j cs)) (operationName (cs ! j)))
          [0..<length cs])"

definition introspection_body :: string where
  \<open>introspection_body =
     ''{"operationName":"IntrospectionQuery","query":"query IntrospectionQuery { __schema { queryType { name } } }"}''\<close>

definition getThing_body :: string where
  \<open>getThing_body = ''{"operationName":"GetThing","query":"query GetThing { thing { id } }"}''\<close>

definition getOther_body :: string where
  \<open>getOther_body = ''{"query":"query GetOther { other { id } }"}''\<close>

definition getOther_named_body :: string where
  \<open>getOther_named_body =
     ''{"operationName":"GetOther","query":"query GetOther { other { id } }"}''\<close>

definition thing_response_1 :: string where
  \<open>thing_response_1 = ''{"data":{"thing":{"id":"1"}}}''\<close>

definition thing_response_2 :: string where
  \<open>thing_response_2 = ''{"data":{"thing":{"id":"2"}}}''\<close>

definition thing_value_1 :: jsval where
  "thing_value_1 = JObj [(''data'', JObj [(''thing'', JObj [(''id'', JStr ''1'')])])]"

definition thing_value_2 :: jsval where
  "thing_value_2 = JObj [(''data'', JObj [(''thing'', JObj [(''id'', JStr ''2'')])])]"

text \<open>What \<^verbatim>\<open>JSON.parse\<close> returns on the texts of the examples; it throws on every other text.\<close>

definition demo_parse :: "string \<Rightarrow> jsval option" where
  "demo_parse s =
     (if s = introspection_body then
        Some (JObj [(''operationName'', JStr ''IntrospectionQuery''),
                    (''query'', JStr ''query IntrospectionQuery { __schema { queryType { name } } }'')])
      else if s = getThing_body then
        Some (JObj [(''operationName'', JStr ''GetThing''),
                    (''query'', JStr ''query GetThing { thing { id } }'')])
      else if s = getOther_body then
        Some (JObj [(''query'', JStr ''query GetOther { other { id } }'')])
      else if s = getOther_named_body then
        Some (JObj [(''operationName'', JStr ''GetOther''),
                    (''query'', JStr ''query GetOther { other { id } }'')])
      else if s = thing_response_1 then Some thing_value_1
      else if s = thing_response_2 then Some thing_value_2
      else if s = ''{}'' then Some (JObj [])
      else None)"

definition post_entry :: "string \<Rightarrow> string \<Rightarrow> har_entry" where
  "post_entry body resp =
     \<lparr>request_url = ''https://countries.trevorblades.com/'', request_method = ''POST'',
      postData = Some body, responseText = Some resp\<rparr>"

definition page_load :: har_entry where
  "page_load =
     \<lparr>request_url = ''https://countries.trevorblades.com/'', request_method = ''GET'',
      postData = None, responseText = Some ''<!DOCTYPE html>''\<rparr>"

section \<open>What the response extractor and the merger are specified to hold\<close>

definition last_with_name :: "jsval \<Rightarrow> (jsval \<times> 'v) list \<Rightarrow> 'v option" where
  "last_with_name k ps = map_option snd (find (\<lambda>p. same_value_zero (fst p) k) (rev ps))"

definition mock_pair :: "(string \<Rightarrow> jsval option) \<Rightarrow> har_entry \<Rightarrow> (jsval \<times> jsval) option" where
  "mock_pair parse e =
     (if request_method e = ''POST'' \<and> truthy (extractOperationName parse (postData e))
         \<and> extractOperationName parse (postData e) \<noteq> JStr ''IntrospectionQuery''
      then (case responseText e of
              None \<Rightarrow> None
            | Some rt \<Rightarrow>
                if rt = [] then None
                else map_option (\<lambda>response. (extractOperationName parse (postData e), response))
                       (parse rt))
      else None)"

definition named_entry :: "(string \<Rightarrow> jsval option) \<Rightarrow> har_entry \<Rightarrow> (jsval \<times> har_entry) option" where
  "named_entry parse e =
     (case body_opName parse e of
        None \<Rightarrow> None
      | Some n \<Rightarrow> if truthy n \<and> n \<noteq> JStr ''IntrospectionQuery'' then Some (n, e) else None)"

section \<open>What the merger is specified to produce\<close>

definition replaced :: "(string \<Rightarrow> jsval option) \<Rightarrow> (jsval \<times> har_entry) list \<Rightarrow> har_entry \<Rightarrow> har_entry" where
  "replaced parse lookup e =
     (case body_opName parse e of
        None \<Rightarrow> e
      | Some n \<Rightarrow> (case map_get lookup n of Some e' \<Rightarrow> e' | None \<Rightarrow> e))"

definition names_in :: "(string \<Rightarrow> jsval option) \<Rightarrow> har_entry list \<Rightarrow> jsval \<Rightarrow> bool" where
  "names_in parse es n =
     list_ex (\<lambda>e. case body_opName parse e of Some n' \<Rightarrow> same_value_zero n' n | None \<Rightarrow> False) es"

definition processed_name ::
  "(string \<Rightarrow> jsval option) \<Rightarrow> (jsval \<times> har_entry) list \<Rightarrow> har_entry \<Rightarrow> jsval option" where
  "processed_name parse lookup e =
     (case body_opName parse e of
        None \<Rightarrow> None
      | Some n \<Rightarrow> if map_get lookup n = None then None else Some n)"

fun no_dup_keys :: "(jsval \<times> 'v) list \<Rightarrow> bool" where
  "no_dup_keys [] = True"
| "no_dup_keys (p # m) = ((\<forall>q \<in> set m. \<not> same_value_zero (fst p) (fst q)) \<and> no_dup_keys m)"

text \<open>
  The extractor and the merger read the same operation name, a string, from an exchange, or
  both read none. An exchange without a body (the page load) and one whose body is not JSON
  or names \<^verbatim>\<open>IntrospectionQuery\<close> are such exchanges; a \<^verbatim>\<open>POST\<close> that names its operation in
  the query text only, and an exchange other than a \<^verbatim>\<open>POST\<close> with a named body, are not.
\<close>

definition same_name :: "(string \<Rightarrow> jsval option) \<Rightarrow> har_entry \<Rightarrow> bool" where
  "same_name parse e =
     (case named_entry parse e of
        None \<Rightarrow> entry_operation parse e = None
      | Some (n, e') \<Rightarrow>
          (case n of
             JStr s \<Rightarrow> map_option operationName (entry_operation parse e) = Some n
           | _ \<Rightarrow> False))"

text \<open>
  The names of a list in the order of their first occurrence, and the lookup the merger is
  specified to build from the named exchanges of the new archive: the names in the order
  of their first occurrence, each with the last exchange that carries it.
\<close>

definition first_names_from :: "jsval list \<Rightarrow> jsval list \<Rightarrow> jsval list" where
  "first_names_from seen ns =
     map (\<lambda>j. ns ! j) (filter (\<lambda>j. \<not> set_has (seen @ take j ns) (ns ! j)) [0..<length ns])"

definition first_names :: "jsval list \<Rightarrow> jsval list" where
  "first_names ns =
     map (\<lambda>j. ns ! j) (filter (\<lambda>j. \<not> set_has (take j ns) (ns ! j)) [0..<length ns])"

definition lookup_spec :: "(jsval \<times> har_entry) list \<Rightarrow> (jsval \<times> har_entry) list" where
  "lookup_spec ps =
     List.map_filter (\<lambda>k. map_option (Pair k) (last_with_name k ps)) (first_names (map fst ps))"

definition newOps :: "(string \<Rightarrow> jsval option) \<Rightarrow> har_entry list \<Rightarrow> har_entry list \<Rightarrow> jsval list" where
  "newOps parse existingEntries newEntries =
     (let existingOpNames = map operationName (extractGraphQLOperations parse (Har existingEntries));
          userOperations =
            filter (\<lambda>oper. operationName oper \<noteq> JStr ''IntrospectionQuery'')
              (extractGraphQLOperations parse (Har newEntries))
      in map operationName
           (filter (\<lambda>oper. \<not> set_has existingOpNames (operationName oper)) userOperations))"

definition unames :: "(string \<Rightarrow> jsval option) \<Rightarrow> har_entry list \<Rightarrow> jsval list" where
  "unames parse es = map fst (List.map_filter (named_entry parse) es)"

definition user_name :: "(string \<Rightarrow> jsval option) \<Rightarrow> har_entry \<Rightarrow> jsval option" where
  "user_name parse e =
     (case body_opName parse e of
        None \<Rightarrow> None
      | Some n \<Rightarrow> if truthy n \<and> n \<noteq> JStr ''IntrospectionQuery'' then Some n else None)"

section \<open>The drift validator (validate-mocks.ts)\<close>

text \<open>A \<^verbatim>\<open>Set\<close> of strings: its elements in insertion order.\<close>

definition set_add :: "string list \<Rightarrow> string \<Rightarrow> string list" where
  "set_add paths p = (if p \<in> set paths then paths else paths @ [p])"

lemma map_of_size:
  "map_of kvs k = Some v \<Longrightarrow> size (v :: jsval) < Suc (size_list (size_prod (\<lambda>x. 0) size) kvs)"
  by (induction kvs) (auto split: if_splits)

function extractFieldPaths :: "jsval \<Rightarrow> string \<Rightarrow> string list" where
  "extractFieldPaths JNull prefix = []"
| "extractFieldPaths JUndefined prefix = []"
| "extractFieldPaths (JArr items) prefix =
     foldl (\<lambda>paths item. foldl set_add paths (extractFieldPaths item prefix)) [] items"
| "extractFieldPaths (JObj kvs) prefix =
     foldl (\<lambda>paths key.
              let fieldPath = (if prefix \<noteq> [] then prefix @ ''.'' @ key else key);
                  paths1 = set_add paths fieldPath
              in case map_of kvs key of
                   Some v \<Rightarrow> foldl set_add paths1 (extractFieldPaths v fieldPath)
                 | None \<Rightarrow> paths1)
       [] (map fst kvs)"
| "extractFieldPaths (JBool b) prefix = []"
| "extractFieldPaths (JNum n) prefix = []"
| "extractFieldPaths (JStr s) prefix = []"
  by pat_completeness auto
termination
  by (relation "measure (\<lambda>(d, p). size d)") (auto simp: less_Suc_eq_le size_list_estimation' dest: map_of_size)

record schema_comparison =
  added :: "string list"
  removed :: "string list"
  unchanged :: "string list"

text \<open>
  \<^verbatim>\<open>Array.prototype.sort\<close> without a comparator orders strings by their UTF-16 code
  units. For field paths with no character beyond \<open>U+FFFF\<close> this is the order of their
  UTF-8 bytes, the order \<open>sort\<close> takes here.
\<close>

definition compareSchemas :: "jsval \<Rightarrow> jsval \<Rightarrow> schema_comparison" where
  "compareSchemas mockData liveData =
     (let mockFields = extractFieldPaths mockData [];
          liveFields = extractFieldPaths liveData []
      in \<lparr>added = sort (filter (\<lambda>field. field \<notin> set mockFields) liveFields),
          removed = sort (filter (\<lambda>field. field \<notin> set liveFields) mockFields),
          unchanged = sort (filter (\<lambda>field. field \<in> set mockFields) liveFields)\<rparr>)"

text \<open>A number in a template literal: its decimal digits.\<close>

function show_nat :: "nat \<Rightarrow> string" where
  "show_nat n =
     (if n < 10 then [char_of (48 + n)] else show_nat (n div 10) @ [char_of (48 + n mod 10)])"
  by pat_completeness auto
termination
  by (relation "measure (\<lambda>n. n)") auto

declare show_nat.simps [simp del]

text \<open>
  What \<^verbatim>\<open>fetch\<close> does: it rejects with an error of some message, or resolves to a response
  with \<^verbatim>\<open>ok\<close>, \<^verbatim>\<open>status\<close> and the outcome of \<^verbatim>\<open>response.json()\<close> (the message of the
  error it rejects with, or the parsed body).
\<close>

datatype fetch_outcome =
    Rejected string
  | Resolved bool nat "string + jsval"

record live_result =
  data :: jsval
  errors :: jsval

definition error_result :: "string \<Rightarrow> live_result" where
  "error_result msg = \<lparr>data = JUndefined, errors = JArr [JObj [(''message'', JStr msg)]]\<rparr>"

text \<open>The message of the TypeError that reading a property of \<^verbatim>\<open>null\<close> throws (V8's wording).\<close>

definition null_read_message :: string where
  "null_read_message = ''Cannot read properties of null (reading 'errors')''"

definition queryLiveServer :: "fetch_outcome \<Rightarrow> live_result" where
  "queryLiveServer outcome =
     (case outcome of
        Rejected msg \<Rightarrow> error_result msg
      | Resolved ok status body \<Rightarrow>
          if \<not> ok then error_result (''HTTP '' @ show_nat status)
          else (case body of
                  Inl msg \<Rightarrow> error_result msg
                | Inr json \<Rightarrow>
                    (case get_prop json ''errors'' of
                       None \<Rightarrow> error_result null_read_message
                     | Some errs \<Rightarrow>
                         if truthy errs then \<lparr>data = JUndefined, errors = errs\<rparr>
                         else \<lparr>data = (case get_prop json ''data'' of
                                          Some d \<Rightarrow> d | None \<Rightarrow> JUndefined),
                               errors = JUndefined\<rparr>)))"

text \<open>\<^verbatim>\<open>content.indexOf(needle)\<close>, \<open>None\<close> for \<^verbatim>\<open>-1\<close>.\<close>

fun index_of :: "string \<Rightarrow> string \<Rightarrow> nat option" where
  "index_of needle [] = (if needle = [] then Some 0 else None)"
| "index_of needle (c # cs) =
     (if starts_with needle (c # cs) then Some 0 else map_option Suc (index_of needle cs))"

text \<open>
  The brace-matching loop of \<^verbatim>\<open>getMockData\<close> over the text from \<^verbatim>\<open>startPos\<close>: the number of
  characters up to and including the brace that brings \<^verbatim>\<open>braceCount\<close> back to zero, \<open>None\<close>
  when the loop ends without a \<^verbatim>\<open>break\<close> (\<^verbatim>\<open>endPos\<close> stays at \<^verbatim>\<open>startPos\<close>).
\<close>

fun match_braces :: "string \<Rightarrow> int \<Rightarrow> bool \<Rightarrow> bool \<Rightarrow> nat option" where
  "match_braces [] braceCount inString escapeNext = None"
| "match_braces (c # cs) braceCount inString escapeNext =
     (if escapeNext then map_option Suc (match_braces cs braceCount inString False)
      else if c = CHR 0x5C then map_option Suc (match_braces cs braceCount inString True)
      else if c = CHR 0x22 then map_option Suc (match_braces cs braceCount (\<not> inString) False)
      else if \<not> inString then
        (let braceCount1 = (if c = CHR ''{'' then braceCount + 1 else braceCount);
             braceCount2 = (if c = CHR ''}'' then braceCount1 - 1 else braceCount1)
         in if braceCount2 = 0 \<and> c = CHR ''}'' then Some 1
            else map_option Suc (match_braces cs braceCount2 inString False))
      else map_option Suc (match_braces cs braceCount inString False))"

text \<open>
  \<^verbatim>\<open>getMockData\<close> on the content of the mock file of the operation, \<open>None\<close> when the file
  cannot be read. The result is \<^verbatim>\<open>null\<close> on every failure.
\<close>

definition getMockData :: "(string \<Rightarrow> jsval option) \<Rightarrow> string option \<Rightarrow> jsval" where
  "getMockData parse file =
     (case file of
        None \<Rightarrow> JNull
      | Some content \<Rightarrow>
          (case index_of ''= {'' content of
             None \<Rightarrow> JNull
           | Some exportStart \<Rightarrow>
               (let rest = drop (exportStart + 2) content;
                    jsonStr = (case match_braces rest 0 False False of
                                 None \<Rightarrow> [] | Some n \<Rightarrow> take n rest)
                in case parse jsonStr of
                     None \<Rightarrow> JNull
                   | Some mockObject \<Rightarrow>
                       (case get_prop mockObject ''data'' of None \<Rightarrow> JNull | Some d \<Rightarrow> d))))"

datatype validation_status = OK | DRIFT | ERROR | REMOVED

record validation_result =
  vr_operationName :: jsval
  vr_status :: validation_status
  vr_message :: string
  vr_added :: "string list option"
  vr_removed :: "string list option"

text \<open>
  \<^verbatim>\<open>liveResult.errors.map(e => e.message).join(", ")\<close>: \<open>None\<close> when it throws (the errors
  are not an array, or one of them is \<^verbatim>\<open>null\<close>). \<^verbatim>\<open>join\<close> renders \<^verbatim>\<open>null\<close> and
  \<^verbatim>\<open>undefined\<close> as the empty string and every other value with \<^verbatim>\<open>ToString\<close>, a parameter
  of the model for the values that are not strings.
\<close>

fun join_with :: "string \<Rightarrow> string list \<Rightarrow> string" where
  "join_with sep [] = []"
| "join_with sep [x] = x"
| "join_with sep (x # y # ys) = x @ sep @ join_with sep (y # ys)"

definition message_text :: "(jsval \<Rightarrow> string) \<Rightarrow> jsval \<Rightarrow> string" where
  "message_text to_string m =
     (case m of JNull \<Rightarrow> [] | JUndefined \<Rightarrow> [] | JStr s \<Rightarrow> s | _ \<Rightarrow> to_string m)"

fun error_messages :: "jsval list \<Rightarrow> jsval list option" where
  "error_messages [] = Some []"
| "error_messages (e # es) =
     (case get_prop e ''message'' of
        None \<Rightarrow> None
      | Some m \<Rightarrow> map_option ((#) m) (error_messages es))"

definition errorMsg :: "(jsval \<Rightarrow> string) \<Rightarrow> jsval \<Rightarrow> string option" where
  "errorMsg to_string errs =
     (case errs of
        JArr es \<Rightarrow> map_option (\<lambda>ms. join_with '', '' (map (message_text to_string) ms)) (error_messages es)
      | _ \<Rightarrow> None)"

text \<open>
  One turn of the loop of \<^verbatim>\<open>validateMocks\<close>: \<open>readMock\<close> is the content of the mock file of
  an operation and \<open>fetch\<close> the outcome of the request for it. \<open>Inl TypeError\<close> is the
  exception that leaves \<^verbatim>\<open>validateMocks\<close>.
\<close>

definition validate_operation ::
  "(string \<Rightarrow> jsval option) \<Rightarrow> (jsval \<Rightarrow> string option) \<Rightarrow> (jsval \<Rightarrow> jsval \<Rightarrow> fetch_outcome)
    \<Rightarrow> (jsval \<Rightarrow> string) \<Rightarrow> graphql_operation \<Rightarrow> js_error + validation_result" where
  "validate_operation parse readMock fetch to_string oper =
     (let mockData = getMockData parse (readMock (operationName oper))
      in if \<not> truthy mockData then
           Inr \<lparr>vr_operationName = operationName oper, vr_status = DRIFT,
                vr_message = ''Mock file not found or couldn't parse data'',
                vr_added = None, vr_removed = None\<rparr>
         else
           (let liveResult = queryLiveServer (fetch (operationName oper) (query oper))
            in if truthy (errors liveResult) then
                 (case errorMsg to_string (errors liveResult) of
                    None \<Rightarrow> Inl TypeError
                  | Some msg \<Rightarrow>
                      Inr \<lparr>vr_operationName = operationName oper, vr_status = ERROR,
                           vr_message = ''Live server returned errors: '' @ msg,
                           vr_added = None, vr_removed = None\<rparr>)
               else if \<not> truthy (data liveResult) then
                 Inr \<lparr>vr_operationName = operationName oper, vr_status = REMOVED,
                      vr_message = ''Operation may have been removed from API'',
                      vr_added = None, vr_removed = None\<rparr>
               else
                 (let comparison = compareSchemas mockData (data liveResult)
                  in if added comparison = [] \<and> removed comparison = [] then
                       Inr \<lparr>vr_operationName = operationName oper, vr_status = OK,
                            vr_message = ''Schema matches - all fields present'',
                            vr_added = None, vr_removed = None\<rparr>
                     else
                       (let changes =
                              (if added comparison \<noteq> []
                               then [show_nat (length (added comparison)) @ '' added''] else [])
                              @ (if removed comparison \<noteq> []
                                 then [show_nat (length (removed comparison)) @ '' removed''] else [])
                        in Inr \<lparr>vr_operationName = operationName oper, vr_status = DRIFT,
                                vr_message = ''Schema drift: '' @ join_with '', '' changes,
                                vr_added = Some (added comparison),
                                vr_removed = Some (removed comparison)\<rparr>))))"



text \<open>
  The two shapes of an entry of \<^verbatim>\<open>results\<close>: the entries with a status and a message only,
  and the entry that the comparison of the field paths gives (\<^verbatim>\<open>OK\<close> when nothing was added
  or removed, \<^verbatim>\<open>DRIFT\<close> with the counts and both lists otherwise).
\<close>

definition plain_result :: "jsval \<Rightarrow> validation_status \<Rightarrow> string \<Rightarrow> validation_result" where
  "plain_result name status msg =
     \<lparr>vr_operationName = name, vr_status = status, vr_message = msg,
      vr_added = None, vr_removed = None\<rparr>"

definition comparison_result :: "jsval \<Rightarrow> schema_comparison \<Rightarrow> validation_result" where
  "comparison_result name comparison =
     (if added comparison = [] \<and> removed comparison = [] then
        plain_result name OK ''Schema matches - all fields present''
      else
        \<lparr>vr_operationName = name, vr_status = DRIFT,
         vr_message = ''Schema drift: ''
           @ join_with '', ''
               ((if added comparison \<noteq> []
                 then [show_nat (length (added comparison)) @ '' added''] else [])
                @ (if removed comparison \<noteq> []
                   then [show_nat (length (removed comparison)) @ '' removed''] else [])),
         vr_added = Some (added comparison), vr_removed = Some (removed comparison)\<rparr>)"

section \<open>The structural fingerprint (mock-extractor.ts)\<close>

text \<open>
  What \<^verbatim>\<open>getStructure\<close> builds: strings, the two-element arrays and plain objects.
\<close>

datatype shape =
    SStr string
  | SArr "shape list"
  | SObj "(string \<times> shape) list"

text \<open>
  \<^verbatim>\<open>structure[key] = value\<close> on a plain object, whose own keys enumerate with the array
  indices (canonical decimal numerals below \<open>2^32 - 1\<close>) first, in ascending numeric order,
  and then the other keys in the order of their creation. A key that is present keeps its
  place. The key \<^verbatim>\<open>__proto__\<close> is the accessor of \<^verbatim>\<open>Object.prototype\<close>: assigning to it
  creates no own key.
\<close>

definition is_digit :: "char \<Rightarrow> bool" where
  "is_digit c = (48 \<le> (of_char c :: nat) \<and> (of_char c :: nat) \<le> 57)"

definition index_value :: "string \<Rightarrow> int" where
  "index_value k = foldl (\<lambda>n c. 10 * n + (of_char c - 48)) 0 k"

definition is_array_index :: "string \<Rightarrow> bool" where
  "is_array_index k =
     (k \<noteq> [] \<and> list_all is_digit k \<and> (k = ''0'' \<or> hd k \<noteq> CHR ''0'')
      \<and> length k \<le> 10 \<and> index_value k < 4294967295)"

fun insert_index :: "string \<Rightarrow> 'a \<Rightarrow> (string \<times> 'a) list \<Rightarrow> (string \<times> 'a) list" where
  "insert_index k v [] = [(k, v)]"
| "insert_index k v ((k', v') # m) =
     (if is_array_index k' \<and> index_value k' < index_value k then (k', v') # insert_index k v m
      else (k, v) # (k', v') # m)"

definition obj_set :: "(string \<times> 'a) list \<Rightarrow> string \<Rightarrow> 'a \<Rightarrow> (string \<times> 'a) list" where
  "obj_set m k v =
     (if k = ''__proto__'' then m
      else if k \<in> fst ` set m then map (\<lambda>(k', v'). if k' = k then (k', v) else (k', v')) m
      else if is_array_index k then insert_index k v m
      else m @ [(k, v)])"

text \<open>
  \<^verbatim>\<open>Array.prototype.sort\<close> without a comparator orders strings by their UTF-16 code units.
  On the UTF-8 bytes of well-formed strings this is the order of the bytes, except that the
  characters \<open>U+E000\<close> to \<open>U+FFFF\<close> (lead bytes \<open>EE\<close> and \<open>EF\<close>) come after the characters
  beyond \<open>U+FFFF\<close> (lead bytes \<open>F0\<close> to \<open>F4\<close>), which UTF-16 writes as surrogate pairs.
\<close>

definition utf16_rank :: "char \<Rightarrow> nat" where
  "utf16_rank c =
     (if (of_char c :: nat) = 0xEE \<or> (of_char c :: nat) = 0xEF then of_char c + 0x100
      else of_char c)"

definition utf16_key :: "string \<Rightarrow> nat list" where
  "utf16_key s = map utf16_rank s"

function getStructure :: "jsval \<Rightarrow> shape" where
  "getStructure JNull = SStr ''null''"
| "getStructure JUndefined = SStr ''undefined''"
| "getStructure (JArr xs) =
     (case xs of
        [] \<Rightarrow> SArr [SStr ''array'', SStr ''empty'']
      | x # rest \<Rightarrow> SArr [SStr ''array'', getStructure x])"
| "getStructure (JObj kvs) =
     SObj (foldl (\<lambda>structure key.
                    obj_set structure key
                      (case map_of kvs key of
                         Some v \<Rightarrow> getStructure v
                       | None \<Rightarrow> SStr ''undefined''))
             [] (sort_key utf16_key (map fst kvs)))"
| "getStructure (JBool b) = SStr ''boolean''"
| "getStructure (JNum n) = SStr ''number''"
| "getStructure (JStr s) = SStr ''string''"
  by pat_completeness auto
termination
  by (relation "measure size") (auto dest: map_of_size)

















section \<open>What the fingerprint is specified to depend on\<close>



section \<open>The callers of the response extractor (mock-extractor.ts)\<close>









section \<open>The drift scenario of the specification\<close>

definition country_mock :: jsval where
  "country_mock =
     JObj [(''country'', JObj [(''code'', JStr ''US''), (''name'', JStr ''United States'')])]"

definition country_live :: jsval where
  "country_live =
     JObj [(''country'', JObj [(''code'', JStr ''US''), (''name'', JStr ''United States''),
                               (''capital'', JStr ''Washington D.C.'')])]"

definition country_mock_json :: string where
  \<open>country_mock_json = ''{"data":{"country":{"code":"US","name":"United States"}}}''\<close>

definition country_mock_file :: string where
  "country_mock_file =
     ''// Auto-generated from HAR file'' @ [CHR 0x0A]
     @ ''export const GetCountryMock = '' @ country_mock_json @ '';'' @ [CHR 0x0A]"

definition country_parse :: "string \<Rightarrow> jsval option" where
  "country_parse s = (if s = country_mock_json then Some (JObj [(''data'', country_mock)]) else None)"

definition getCountry :: graphql_operation where
  "getCountry =
     \<lparr>operationName = JStr ''GetCountry'',
      query = JStr ''query GetCountry { country(code: US) { code name } }''\<rparr>"

section \<open>What the field paths are specified to be\<close>

text \<open>
  The chains of keys of a value: a chain leads from the value through objects, by one key
  each, and through arrays, by any element and with no key.
\<close>

inductive key_chain :: "jsval \<Rightarrow> string list \<Rightarrow> bool" where
  here: "map_of kvs k = Some v \<Longrightarrow> key_chain (JObj kvs) [k]"
| deeper: "map_of kvs k = Some v \<Longrightarrow> key_chain v ks \<Longrightarrow> key_chain (JObj kvs) (k # ks)"
| element: "x \<in> set xs \<Longrightarrow> key_chain x ks \<Longrightarrow> key_chain (JArr xs) ks"

text \<open>The path of a chain below a prefix, as the template literal of the source joins it.\<close>

definition field_path :: "string \<Rightarrow> string \<Rightarrow> string" where
  "field_path prefix key = (if prefix \<noteq> [] then prefix @ ''.'' @ key else key)"

definition path_from :: "string \<Rightarrow> string list \<Rightarrow> string" where
  "path_from prefix ks = foldl field_path prefix ks"

text \<open>
  The walk the specification describes: the recursion of \<^verbatim>\<open>getStructure\<close>, which enters only
  the first element of an array, collecting the paths instead of the shape.
\<close>

function first_element_paths :: "jsval \<Rightarrow> string \<Rightarrow> string list" where
  "first_element_paths JNull prefix = []"
| "first_element_paths JUndefined prefix = []"
| "first_element_paths (JArr xs) prefix =
     (case xs of [] \<Rightarrow> [] | x # rest \<Rightarrow> first_element_paths x prefix)"
| "first_element_paths (JObj kvs) prefix =
     foldl (\<lambda>paths key.
              let fieldPath = (if prefix \<noteq> [] then prefix @ ''.'' @ key else key);
                  paths1 = set_add paths fieldPath
              in case map_of kvs key of
                   Some v \<Rightarrow> foldl set_add paths1 (first_element_paths v fieldPath)
                 | None \<Rightarrow> paths1)
       [] (map fst kvs)"
| "first_element_paths (JBool b) prefix = []"
| "first_element_paths (JNum n) prefix = []"
| "first_element_paths (JStr s) prefix = []"
  by pat_completeness auto
termination
  by (relation "measure (\<lambda>(d, p). size d)") (auto dest: map_of_size)

inductive_cases key_chain_JNull: "key_chain JNull ks"
inductive_cases key_chain_JUndefined: "key_chain JUndefined ks"
inductive_cases key_chain_JBool: "key_chain (JBool b) ks"
inductive_cases key_chain_JNum: "key_chain (JNum n) ks"
inductive_cases key_chain_JStr: "key_chain (JStr s) ks"
inductive_cases key_chain_JArr: "key_chain (JArr xs) ks"
inductive_cases key_chain_JObj: "key_chain (JObj kvs) ks"

section \<open>The registry builder (update-registry.ts, mock-registry.ts)\<close>

text \<open>
  The directory of the mocks: the names \<^verbatim>\<open>readdir\<close> returns, and the entries of
  \<^verbatim>\<open>GRAPHQL_MOCKS\<close> as the registry file lists them (operation name, imported variable).
\<close>

record mocks_dir =
  dir_files :: "string list"
  registry_entries :: "(string \<times> string) list"

definition ends_with :: "string \<Rightarrow> string \<Rightarrow> bool" where
  "ends_with suffix s = (length suffix \<le> length s \<and> drop (length s - length suffix) s = suffix)"

text \<open>\<^verbatim>\<open>s.replace(pat, rep)\<close> with a string pattern: the first occurrence only.\<close>

fun replace_first :: "string \<Rightarrow> string \<Rightarrow> string \<Rightarrow> string" where
  "replace_first pat rep [] = (if pat = [] then rep else [])"
| "replace_first pat rep (c # cs) =
     (if starts_with pat (c # cs) then rep @ drop (length pat) (c # cs)
      else c # replace_first pat rep cs)"

definition mockFiles :: "string list \<Rightarrow> string list" where
  "mockFiles files = sort (filter (\<lambda>f. ends_with ''.mock.ts'' f \<and> f \<noteq> ''mock-registry.ts'') files)"

definition mapEntries :: "string list \<Rightarrow> (string \<times> string) list" where
  "mapEntries fs =
     map (\<lambda>file. let baseName = replace_first ''.mock.ts'' [] file;
                      mockVarName = baseName @ ''Mock''
                  in (baseName, mockVarName)) fs"

definition updateMockRegistry :: "mocks_dir \<Rightarrow> mocks_dir" where
  "updateMockRegistry st =
     (if mockFiles (dir_files st) = [] then st
      else st\<lparr>registry_entries := mapEntries (mockFiles (dir_files st)),
              dir_files := (if ''mock-registry.ts'' \<in> set (dir_files st) then dir_files st
                            else dir_files st @ [''mock-registry.ts''])\<rparr>)"

text \<open>\<^verbatim>\<open>Array.from(GRAPHQL_MOCKS.keys())\<close>: the keys of the map built from the entries.\<close>

definition listMocks :: "mocks_dir \<Rightarrow> string list" where
  "listMocks st = foldl set_add [] (map fst (registry_entries st))"

definition hasMock :: "mocks_dir \<Rightarrow> string \<Rightarrow> bool" where
  "hasMock st name = (name \<in> set (listMocks st))"

text \<open>The operation names that have a mock artifact in the directory.\<close>

definition artifact_names :: "string list \<Rightarrow> string set" where
  "artifact_names files = {n. n @ ''.mock.ts'' \<in> set files}"

definition demo_dir :: mocks_dir where
  "demo_dir =
     \<lparr>dir_files = [''GetCountry.mock.ts'', ''mock-registry.ts'', ''GetContinent.mock.ts'',
                   ''generated-types.ts''],
      registry_entries = [(''GetCountries'', ''GetCountriesMock'')]\<rparr>"

chapter \<open>Properties\<close>

section \<open>The operation extractor\<close>

lemma svz_eq: "same_value_zero a b \<Longrightarrow> a = b"
  by (cases a) auto

lemma set_has_append: "set_has (xs @ ys) v = (set_has xs v \<or> set_has ys v)"
  by (auto simp: set_has_def list_ex_iff)

lemma set_has_Cons: "set_has (x # xs) v = (same_value_zero x v \<or> set_has xs v)"
  by (simp add: set_has_def)

lemma set_has_Nil: "set_has [] v = False"
  by (simp add: set_has_def)

lemma set_has_absorb:
  assumes "set_has seen n"
  shows "set_has (seen @ n # ns) m = set_has (seen @ ns) m"
proof -
  have "same_value_zero n m \<Longrightarrow> set_has seen m"
  proof -
    assume a: "same_value_zero n m"
    from assms obtain x where x: "x \<in> set seen" "same_value_zero x n"
      by (auto simp: set_has_def list_ex_iff)
    from a have "n = m" by (rule svz_eq)
    with x show "set_has seen m" by (auto simp: set_has_def list_ex_iff)
  qed
  then show ?thesis by (auto simp: set_has_append set_has_Cons)
qed

lemma first_occurrences_from_Nil: "first_occurrences_from seen [] = []"
  by (simp add: first_occurrences_from_def)

lemma first_occurrences_from_Cons:
  "first_occurrences_from seen (c # cs) =
     (if set_has seen (operationName c) then first_occurrences_from seen cs
      else c # first_occurrences_from (seen @ [operationName c]) cs)"
proof -
  have up: "[0..<length (c # cs)] = 0 # map Suc [0..<length cs]"
    by (simp add: upt_conv_Cons map_Suc_upt del: upt_Suc)
  show ?thesis
    unfolding first_occurrences_from_def up
    by (simp add: filter_map comp_def set_has_absorb del: upt_Suc)
qed

lemma operations_loop_spec:
  "operations_loop parse es ops seen = ops @ first_occurrences_from seen (candidates parse es)"
proof (induction es arbitrary: ops seen)
  case Nil
  then show ?case by (simp add: candidates_def first_occurrences_from_Nil)
next
  case (Cons e es)
  show ?case
  proof (cases "entry_operation parse e")
    case None
    then show ?thesis using Cons by (simp add: candidates_def)
  next
    case (Some c)
    then show ?thesis using Cons
      by (simp add: candidates_def first_occurrences_from_Cons)
  qed
qed

lemma first_occurrences_eq: "first_occurrences cs = first_occurrences_from [] cs"
  by (simp add: first_occurrences_def first_occurrences_from_def)

lemma first_occurrences_from_subset: "set (first_occurrences_from seen cs) \<subseteq> set cs"
  by (auto simp: first_occurrences_from_def)

lemma first_occurrences_from_length: "length (first_occurrences_from seen cs) \<le> length cs"
proof -
  have "length (first_occurrences_from seen cs) \<le> length [0..<length cs]"
    unfolding first_occurrences_from_def length_map by (rule length_filter_le)
  then show ?thesis by simp
qed

lemma first_occurrences_from_unseen:
  "oper \<in> set (first_occurrences_from seen cs) \<Longrightarrow> \<not> set_has seen (operationName oper)"
proof (induction cs arbitrary: seen)
  case Nil
  then show ?case by (simp add: first_occurrences_from_Nil)
next
  case (Cons c cs)
  show ?case
  proof (cases "set_has seen (operationName c)")
    case True
    then show ?thesis using Cons by (simp add: first_occurrences_from_Cons)
  next
    case False
    with Cons.prems have "oper = c \<or> oper \<in> set (first_occurrences_from (seen @ [operationName c]) cs)"
      by (simp add: first_occurrences_from_Cons)
    then show ?thesis
    proof
      assume "oper = c"
      with False show ?thesis by simp
    next
      assume "oper \<in> set (first_occurrences_from (seen @ [operationName c]) cs)"
      then have "\<not> set_has (seen @ [operationName c]) (operationName oper)"
        by (rule Cons.IH)
      then show ?thesis by (simp add: set_has_append)
    qed
  qed
qed

lemma first_occurrences_from_unique:
  "j < length (first_occurrences_from seen cs) \<Longrightarrow> i < j \<Longrightarrow>
     \<not> same_value_zero (operationName (first_occurrences_from seen cs ! i))
          (operationName (first_occurrences_from seen cs ! j))"
proof (induction cs arbitrary: seen i j)
  case Nil
  then show ?case by (simp add: first_occurrences_from_Nil)
next
  case (Cons c cs)
  show ?case
  proof (cases "set_has seen (operationName c)")
    case True
    then show ?thesis using Cons by (simp add: first_occurrences_from_Cons)
  next
    case False
    let ?r = "first_occurrences_from (seen @ [operationName c]) cs"
    from False have eq: "first_occurrences_from seen (c # cs) = c # ?r"
      by (simp add: first_occurrences_from_Cons)
    from Cons.prems obtain j' where j': "j = Suc j'" "j' < length ?r"
      by (cases j) (auto simp: eq)
    show ?thesis
    proof (cases i)
      case 0
      have "?r ! j' \<in> set ?r" using j' by simp
      then have "\<not> set_has (seen @ [operationName c]) (operationName (?r ! j'))"
        by (rule first_occurrences_from_unseen)
      then show ?thesis using 0 j' by (simp add: eq set_has_append set_has_Cons)
    next
      case (Suc i')
      then show ?thesis using Cons.IH [of j' "seen @ [operationName c]" i'] j' Cons.prems
        by (simp add: eq)
    qed
  qed
qed

lemma entry_operation_name:
  "entry_operation parse e = Some oper \<Longrightarrow>
     truthy (operationName oper) \<and> operationName oper \<noteq> JStr ''IntrospectionQuery''"
  by (auto simp: entry_operation_def Let_def split: if_splits option.splits)

lemma candidates_name:
  "oper \<in> set (candidates parse es) \<Longrightarrow>
     truthy (operationName oper) \<and> operationName oper \<noteq> JStr ''IntrospectionQuery''"
  by (auto simp: candidates_def map_filter_def dest: entry_operation_name)

lemma candidates_skip:
  "entry_operation parse e = None \<Longrightarrow> candidates parse (xs @ e # ys) = candidates parse (xs @ ys)"
  by (simp add: candidates_def map_filter_def)

lemma candidates_length: "length (candidates parse es) \<le> length es"
  by (simp add: candidates_def map_filter_def)

lemma entry_operation_unparsable:
  "postData e = Some body \<Longrightarrow> parse body = None \<Longrightarrow> entry_operation parse e = None"
  by (simp add: entry_operation_def)

lemma extractOperationName_explicit:
  "parse body = Some parsed \<Longrightarrow> get_prop parsed ''operationName'' = Some n \<Longrightarrow> truthy n \<Longrightarrow>
     body \<noteq> [] \<Longrightarrow> extractOperationName parse (Some body) = n"
  by (simp add: extractOperationName_def name_of_parsed_def)

lemma entry_operation_nameless:
  "\<not> truthy (extractOperationName parse (postData e)) \<Longrightarrow> entry_operation parse e = None"
  by (auto simp: entry_operation_def Let_def extractOperationName_explicit
      split: option.splits)

lemma demo_archive_operations:
  "extractGraphQLOperations demo_parse
     (Har [post_entry introspection_body ''{}'', post_entry getThing_body ''{}''])
   = [\<lparr>operationName = JStr ''GetThing'', query = JStr ''query GetThing { thing { id } }''\<rparr>]"
  by code_simp

text \<open>
  Claim C9. \<^verbatim>\<open>extractGraphQLOperations\<close> returns, in the order of the archive, the first
  exchange of every operation name: what it returns is the list of the exchanges that
  carry an operation, without each one whose name an earlier one carries. No two
  operations it returns have the same name and none is named \<^verbatim>\<open>IntrospectionQuery\<close>.
  For an archive of one \<^verbatim>\<open>IntrospectionQuery\<close> exchange and one \<^verbatim>\<open>GetThing\<close> exchange
  the names returned are exactly \<^verbatim>\<open>GetThing\<close>. An entry whose body is not JSON, or
  yields no name, changes nothing: the result is that of the archive without the entry,
  and there are never more operations than entries.
\<close>

theorem extractOperations_unique_first_occurrence:
  "extractGraphQLOperations parse (Har es) = first_occurrences (candidates parse es)
   \<and> (\<forall>j < length (extractGraphQLOperations parse (Har es)). \<forall>i < j.
         \<not> same_value_zero (operationName (extractGraphQLOperations parse (Har es) ! i))
              (operationName (extractGraphQLOperations parse (Har es) ! j)))
   \<and> (\<forall>oper \<in> set (extractGraphQLOperations parse (Har es)).
         operationName oper \<noteq> JStr ''IntrospectionQuery'')
   \<and> map operationName (extractGraphQLOperations demo_parse
         (Har [post_entry introspection_body ''{}'', post_entry getThing_body ''{}'']))
       = [JStr ''GetThing'']
   \<and> ((\<exists>body. postData e = Some body \<and> parse body = None)
          \<or> \<not> truthy (extractOperationName parse (postData e))
        \<longrightarrow> extractGraphQLOperations parse (Har (xs @ e # ys))
            = extractGraphQLOperations parse (Har (xs @ ys)))
   \<and> length (extractGraphQLOperations parse (Har es)) \<le> length es"
proof -
  have spec: "extractGraphQLOperations parse (Har zs) = first_occurrences_from [] (candidates parse zs)"
    for zs
    by (simp add: extractGraphQLOperations_def operations_loop_spec)
  have a: "extractGraphQLOperations parse (Har es) = first_occurrences (candidates parse es)"
    by (simp add: spec first_occurrences_eq)
  have b: "\<forall>j < length (extractGraphQLOperations parse (Har es)). \<forall>i < j.
         \<not> same_value_zero (operationName (extractGraphQLOperations parse (Har es) ! i))
              (operationName (extractGraphQLOperations parse (Har es) ! j))"
    unfolding spec using first_occurrences_from_unique by blast
  have c: "\<forall>oper \<in> set (extractGraphQLOperations parse (Har es)).
         operationName oper \<noteq> JStr ''IntrospectionQuery''"
    unfolding spec using first_occurrences_from_subset candidates_name by blast
  have d: "map operationName (extractGraphQLOperations demo_parse
         (Har [post_entry introspection_body ''{}'', post_entry getThing_body ''{}'']))
       = [JStr ''GetThing'']"
    by (simp add: demo_archive_operations)
  have e: "(\<exists>body. postData e = Some body \<and> parse body = None)
          \<or> \<not> truthy (extractOperationName parse (postData e))
        \<longrightarrow> extractGraphQLOperations parse (Har (xs @ e # ys))
            = extractGraphQLOperations parse (Har (xs @ ys))"
    unfolding spec
    using entry_operation_unparsable entry_operation_nameless candidates_skip by metis
  have f: "length (extractGraphQLOperations parse (Har es)) \<le> length es"
    unfolding spec
    using first_occurrences_from_length [of "[]" "candidates parse es"] candidates_length [of parse es]
    by linarith
  from a b c d e f show ?thesis by blast
qed

theorem extractOperations_unique_first_occurrence_witness:
  "(\<exists>body. postData (post_entry ''not json'' ''{}'') = Some body \<and> demo_parse body = None)
   \<and> extractGraphQLOperations demo_parse
        (Har ([post_entry getThing_body ''{}''] @ post_entry ''not json'' ''{}''
              # [post_entry introspection_body ''{}'', post_entry getThing_body ''[]'']))
      = [\<lparr>operationName = JStr ''GetThing'', query = JStr ''query GetThing { thing { id } }''\<rparr>]
   \<and> first_occurrences (candidates demo_parse
        [post_entry getThing_body ''{}'', post_entry introspection_body ''{}'',
         post_entry getThing_body ''[]''])
      = [\<lparr>operationName = JStr ''GetThing'', query = JStr ''query GetThing { thing { id } }''\<rparr>]"
proof -
  have "demo_parse ''not json'' = None"
    by code_simp
  then have h: "\<exists>body. postData (post_entry ''not json'' ''{}'') = Some body \<and> demo_parse body = None"
    by (simp add: post_entry_def)
  have v: "extractGraphQLOperations demo_parse
             (Har [post_entry getThing_body ''{}'', post_entry introspection_body ''{}'',
                   post_entry getThing_body ''[]''])
           = [\<lparr>operationName = JStr ''GetThing'', query = JStr ''query GetThing { thing { id } }''\<rparr>]"
    by code_simp
  show ?thesis
    using h v
      extractOperations_unique_first_occurrence
        [of demo_parse
            "[post_entry getThing_body ''{}'', post_entry introspection_body ''{}'',
              post_entry getThing_body ''[]'']"
            "post_entry ''not json'' ''{}''"
            "[post_entry getThing_body ''{}'']"
            "[post_entry introspection_body ''{}'', post_entry getThing_body ''[]'']"]
    by simp
qed

section \<open>The response extractor\<close>

lemma map_get_map_set:
  "map_get (map_set m n v) k = (if same_value_zero n k then Some v else map_get m k)"
proof (induction m)
  case Nil
  then show ?case by simp
next
  case (Cons p m)
  obtain k' v' where p: "p = (k', v')" by (cases p)
  show ?case
  proof (cases "same_value_zero k' n")
    case True
    then have "k' = n" by (rule svz_eq)
    with True show ?thesis by (simp add: p)
  next
    case False
    have "same_value_zero k' k \<Longrightarrow> same_value_zero n k \<Longrightarrow> same_value_zero k' n"
      by (cases k'; cases n) auto
    with False Cons show ?thesis by (auto simp: p)
  qed
qed

lemma map_set_keys: "fst ` set (map_set m n v) \<subseteq> insert n (fst ` set m)"
proof (induction m)
  case Nil
  then show ?case by simp
next
  case (Cons p m)
  then show ?case by (cases p) (auto split: if_splits)
qed

lemma find_app:
  "find P (xs @ ys) = (case find P xs of Some x \<Rightarrow> Some x | None \<Rightarrow> find P ys)"
  by (induction xs) auto

lemma last_with_name_snoc:
  "last_with_name k (ps @ [(n, v)]) = (if same_value_zero n k then Some v else last_with_name k ps)"
  by (simp add: last_with_name_def)

lemma last_with_name_Nil: "last_with_name k [] = None"
  by (simp add: last_with_name_def)

lemma last_with_name_Cons:
  "last_with_name k (p # ps) =
     (case last_with_name k ps of Some v \<Rightarrow> Some v
      | None \<Rightarrow> if same_value_zero (fst p) k then Some (snd p) else None)"
  by (simp add: last_with_name_def find_app split: option.splits)

lemma mocks_step_pair:
  "mocks_step parse m e = (case mock_pair parse e of None \<Rightarrow> m | Some (n, v) \<Rightarrow> map_set m n v)"
  by (simp add: mocks_step_def mock_pair_def Let_def split: option.splits)

lemma mocks_loop_get:
  "map_get (mocks_loop parse es m) k =
     (case last_with_name k (List.map_filter (mock_pair parse) es) of
        Some v \<Rightarrow> Some v | None \<Rightarrow> map_get m k)"
proof (induction es arbitrary: m)
  case Nil
  then show ?case by (simp add: last_with_name_def)
next
  case (Cons e es)
  show ?case
  proof (cases "mock_pair parse e")
    case None
    then show ?thesis using Cons by (simp add: mocks_step_pair)
  next
    case (Some p)
    then show ?thesis using Cons [of "map_set m (fst p) (snd p)"]
      by (cases p) (simp add: mocks_step_pair last_with_name_Cons map_get_map_set split: option.splits)
  qed
qed

lemma mock_pair_name:
  "mock_pair parse e = Some (n, v) \<Longrightarrow>
     request_method e = ''POST'' \<and> n = extractOperationName parse (postData e) \<and> truthy n
     \<and> n \<noteq> JStr ''IntrospectionQuery'' \<and> (\<exists>rt. responseText e = Some rt \<and> parse rt = Some v)"
  by (auto simp: mock_pair_def split: if_splits option.splits)

lemma mocks_loop_keys:
  "fst ` set (mocks_loop parse es m) \<subseteq> fst ` set m \<union> fst ` set (List.map_filter (mock_pair parse) es)"
proof (induction es arbitrary: m)
  case Nil
  then show ?case by simp
next
  case (Cons e es)
  show ?case
  proof (cases "mock_pair parse e")
    case None
    then show ?thesis using Cons [of m] by (simp add: mocks_step_pair)
  next
    case (Some p)
    obtain n v where p: "p = (n, v)" by (cases p)
    have "fst ` set (mocks_loop parse es (map_set m n v))
            \<subseteq> fst ` set (map_set m n v) \<union> fst ` set (List.map_filter (mock_pair parse) es)"
      by (rule Cons)
    also have "\<dots> \<subseteq> insert n (fst ` set m) \<union> fst ` set (List.map_filter (mock_pair parse) es)"
      using map_set_keys [of m n v] by blast
    finally show ?thesis using Some p by (auto simp: mocks_step_pair)
  qed
qed

lemma entry_operation_extractOperationName:
  "entry_operation parse e = Some oper \<Longrightarrow>
     request_method e = ''POST'' \<and> extractOperationName parse (postData e) = operationName oper"
  by (auto simp: entry_operation_def Let_def extractOperationName_explicit
      split: if_splits option.splits)






text \<open>
  Against claim C4 as stated: of two \<^verbatim>\<open>GetThing\<close> exchanges with different responses the
  map holds the response of the second, not of the first; and a body that is not JSON but
  holds \<^verbatim>\<open>query GetThing\<close> gets an entry in the map while \<^verbatim>\<open>extractGraphQLOperations\<close>
  skips it.
\<close>

theorem extractGraphQLMocks_first_occurrence_counterexample:
  "extractGraphQLMocks demo_parse
     (Har [post_entry getThing_body thing_response_1, post_entry getThing_body thing_response_2])
     = Inr [(JStr ''GetThing'', thing_value_2)]
   \<and> demo_parse thing_response_1 = Some thing_value_1
   \<and> thing_value_1 \<noteq> thing_value_2
   \<and> extractGraphQLMocks demo_parse (Har [post_entry ''query GetThing { thing }'' thing_response_1])
     = Inr [(JStr ''GetThing'', thing_value_1)]
   \<and> extractGraphQLOperations demo_parse (Har [post_entry ''query GetThing { thing }'' thing_response_1])
     = []"
  by code_simp

text \<open>
  Claim C4, amended. \<^verbatim>\<open>extractGraphQLMocks\<close> returns a map for every archive. It considers
  only \<^verbatim>\<open>POST\<close> exchanges from whose body \<^verbatim>\<open>extractOperationName\<close> reads a name other than
  \<^verbatim>\<open>IntrospectionQuery\<close> and whose response text parses; under each name it holds the
  response of the last such exchange of that name. On every exchange that
  \<^verbatim>\<open>extractGraphQLOperations\<close> takes an operation from, the two agree on the name.
\<close>

theorem extractGraphQLMocks_last_response:
  "(\<exists>mocks. extractGraphQLMocks parse (Har es) = Inr mocks
      \<and> (\<forall>k. map_get mocks k = last_with_name k (List.map_filter (mock_pair parse) es))
      \<and> (\<forall>k \<in> fst ` set mocks. truthy k \<and> k \<noteq> JStr ''IntrospectionQuery''))
   \<and> (mock_pair parse e = Some (n, v) \<longrightarrow>
        request_method e = ''POST'' \<and> n = extractOperationName parse (postData e)
        \<and> (\<exists>rt. responseText e = Some rt \<and> parse rt = Some v))
   \<and> (entry_operation parse e = Some oper \<longrightarrow>
        request_method e = ''POST'' \<and> extractOperationName parse (postData e) = operationName oper)"
proof -
  have a: "\<forall>k. map_get (mocks_loop parse es []) k
             = last_with_name k (List.map_filter (mock_pair parse) es)"
    by (simp add: mocks_loop_get split: option.splits)
  have b: "\<forall>k \<in> fst ` set (mocks_loop parse es []). truthy k \<and> k \<noteq> JStr ''IntrospectionQuery''"
  proof
    fix k assume "k \<in> fst ` set (mocks_loop parse es [])"
    with mocks_loop_keys [of parse es "[]"]
    have "k \<in> fst ` set (List.map_filter (mock_pair parse) es)" by auto
    then obtain v e where "mock_pair parse e = Some (k, v)"
      by (auto simp: map_filter_def)
    then show "truthy k \<and> k \<noteq> JStr ''IntrospectionQuery''"
      using mock_pair_name by blast
  qed
  have c: "mock_pair parse e = Some (n, v) \<longrightarrow>
        request_method e = ''POST'' \<and> n = extractOperationName parse (postData e)
        \<and> (\<exists>rt. responseText e = Some rt \<and> parse rt = Some v)"
    using mock_pair_name by blast
  have d: "entry_operation parse e = Some oper \<longrightarrow>
        request_method e = ''POST'' \<and> extractOperationName parse (postData e) = operationName oper"
    using entry_operation_extractOperationName by blast
  from a b c d show ?thesis by (simp add: extractGraphQLMocks_def)
qed

theorem extractGraphQLMocks_last_response_witness:
  "(\<exists>mocks. extractGraphQLMocks demo_parse
       (Har [post_entry getThing_body thing_response_1, post_entry getThing_body thing_response_2])
       = Inr mocks
      \<and> map_get mocks (JStr ''GetThing'') = Some thing_value_2
      \<and> JStr ''GetThing'' \<in> fst ` set mocks)
   \<and> mock_pair demo_parse (post_entry getThing_body thing_response_2)
       = Some (JStr ''GetThing'', thing_value_2)
   \<and> request_method (post_entry getThing_body thing_response_2) = ''POST''
   \<and> entry_operation demo_parse (post_entry getThing_body thing_response_2)
       = Some \<lparr>operationName = JStr ''GetThing'', query = JStr ''query GetThing { thing { id } }''\<rparr>
   \<and> extractOperationName demo_parse (postData (post_entry getThing_body thing_response_2))
       = JStr ''GetThing''"
proof -
  let ?es = "[post_entry getThing_body thing_response_1, post_entry getThing_body thing_response_2]"
  let ?e = "post_entry getThing_body thing_response_2"
  let ?oper = "\<lparr>operationName = JStr ''GetThing'', query = JStr ''query GetThing { thing { id } }''\<rparr>"
  have p: "mock_pair demo_parse ?e = Some (JStr ''GetThing'', thing_value_2)"
    by code_simp
  have q: "entry_operation demo_parse ?e = Some ?oper"
    by code_simp
  have l: "last_with_name (JStr ''GetThing'') (List.map_filter (mock_pair demo_parse) ?es)
           = Some thing_value_2"
    by code_simp
  have m: "extractGraphQLMocks demo_parse (Har ?es) = Inr [(JStr ''GetThing'', thing_value_2)]"
    by code_simp
  note t = extractGraphQLMocks_last_response
             [of demo_parse ?es ?e "JStr ''GetThing''" thing_value_2 ?oper]
  from t have t1: "\<exists>mocks. extractGraphQLMocks demo_parse (Har ?es) = Inr mocks
      \<and> (\<forall>k. map_get mocks k = last_with_name k (List.map_filter (mock_pair demo_parse) ?es))
      \<and> (\<forall>k \<in> fst ` set mocks. truthy k \<and> k \<noteq> JStr ''IntrospectionQuery'')"
    by (rule conjunct1)
  then obtain mocks where mocks: "extractGraphQLMocks demo_parse (Har ?es) = Inr mocks"
    "\<forall>k. map_get mocks k = last_with_name k (List.map_filter (mock_pair demo_parse) ?es)"
    by blast
  from mocks(1) m have mk: "mocks = [(JStr ''GetThing'', thing_value_2)]" by simp
  from mocks(2) l have g: "map_get mocks (JStr ''GetThing'') = Some thing_value_2" by simp
  have k: "JStr ''GetThing'' \<in> fst ` set mocks" by (simp add: mk)
  from t p have t2: "request_method ?e = ''POST''
      \<and> JStr ''GetThing'' = extractOperationName demo_parse (postData ?e)"
    by blast
  from mocks(1) g k p q t2 show ?thesis by simp
qed

section \<open>The archive merger\<close>

lemma newOpMap_step_named:
  "newOpMap_step parse m e = (case named_entry parse e of None \<Rightarrow> m | Some (n, e') \<Rightarrow> map_set m n e')"
  by (simp add: newOpMap_step_def named_entry_def split: option.splits)

lemma named_entry_snd: "named_entry parse e = Some (n, e') \<Longrightarrow> e' = e"
  by (auto simp: named_entry_def split: option.splits if_splits)

lemma foldl_newOpMap_get:
  "map_get (foldl (newOpMap_step parse) m es) k =
     (case last_with_name k (List.map_filter (named_entry parse) es) of
        Some v \<Rightarrow> Some v | None \<Rightarrow> map_get m k)"
proof (induction es arbitrary: m)
  case Nil
  then show ?case by (simp add: last_with_name_Nil)
next
  case (Cons e es)
  show ?case
  proof (cases "named_entry parse e")
    case None
    then show ?thesis using Cons by (simp add: newOpMap_step_named)
  next
    case (Some p)
    then show ?thesis using Cons [of "map_set m (fst p) (snd p)"]
      by (cases p)
        (simp add: newOpMap_step_named last_with_name_Cons map_get_map_set split: option.splits)
  qed
qed

lemma build_newOpMap_get:
  "map_get (build_newOpMap parse es) k = last_with_name k (List.map_filter (named_entry parse) es)"
  by (simp add: build_newOpMap_def foldl_newOpMap_get split: option.splits)

lemma walk_spec:
  "foldl (walk_step parse lookup) (fin, proc) ex =
     (fin @ map (replaced parse lookup) ex,
      proc @ List.map_filter
               (processed_name parse lookup) ex)"
proof (induction ex arbitrary: fin proc)
  case Nil
  then show ?case by simp
next
  case (Cons e ex)
  have step: "walk_step parse lookup (fin, proc) e =
     (fin @ [replaced parse lookup e],
      proc @ (case processed_name parse lookup e of None \<Rightarrow> [] | Some n \<Rightarrow> [n]))"
    by (simp add: walk_step_def replaced_def processed_name_def split: option.splits)
  show ?case
    unfolding foldl_Cons step Cons
    by (simp split: option.splits)
qed

lemma append_new_spec:
  "append_new lookup (fin, proc) = fin @ map snd (filter (\<lambda>p. \<not> set_has proc (fst p)) lookup)"
proof -
  have "foldl (\<lambda>fin (opName, entry). if \<not> set_has proc opName then fin @ [entry] else fin) fin lookup
          = fin @ map snd (filter (\<lambda>p. \<not> set_has proc (fst p)) lookup)" for fin
    by (induction lookup arbitrary: fin) (auto simp: case_prod_beta)
  then show ?thesis by (simp add: append_new_def)
qed

lemma map_get_key: "(n, e) \<in> set m \<Longrightarrow> same_value_zero n n \<Longrightarrow> map_get m n \<noteq> None"
  by (induction m) auto

lemma processed_has:
  assumes "(n, e') \<in> set lookup"
  shows "set_has (List.map_filter
               (processed_name parse lookup) ex) n
         = names_in parse ex n"
proof -
  have "same_value_zero n' n \<Longrightarrow> map_get lookup n' \<noteq> None" for n'
  proof -
    assume a: "same_value_zero n' n"
    then have eq: "n' = n" by (rule svz_eq)
    with a have "same_value_zero n n" by simp
    from map_get_key [OF assms this] show ?thesis by (simp add: eq)
  qed
  then have key: "same_value_zero n' n \<Longrightarrow> map_get lookup n' \<noteq> None" for n' .
  show ?thesis
  proof (induction ex)
    case Nil
    then show ?case by (simp add: set_has_def names_in_def)
  next
    case (Cons e ex)
    have IH: "list_ex (\<lambda>x. same_value_zero x n) (List.map_filter (processed_name parse lookup) ex)
              = list_ex (\<lambda>e. case body_opName parse e of Some n' \<Rightarrow> same_value_zero n' n | None \<Rightarrow> False) ex"
      using Cons by (simp add: set_has_def names_in_def)
    show ?case
    proof (cases "body_opName parse e")
      case None
      then have pn: "processed_name parse lookup e = None" by (simp add: processed_name_def)
      from None pn IH show ?thesis by (simp add: set_has_def names_in_def)
    next
      case (Some n')
      show ?thesis
      proof (cases "same_value_zero n' n")
        case True
        with key have "map_get lookup n' \<noteq> None" by simp
        with Some have pn: "processed_name parse lookup e = Some n'"
          by (simp add: processed_name_def)
        from True Some pn show ?thesis by (simp add: set_has_def names_in_def)
      next
        case False
        from Some have pn: "processed_name parse lookup e = None \<or> processed_name parse lookup e = Some n'"
          by (simp add: processed_name_def)
        from False Some pn IH show ?thesis by (auto simp: set_has_def names_in_def)
      qed
    qed
  qed
qed

lemma merge_entries_spec:
  "merge_entries parse ex new =
     map (replaced parse (build_newOpMap parse new)) ex
     @ map snd (filter (\<lambda>p. \<not> names_in parse ex (fst p)) (build_newOpMap parse new))"
proof -
  have "filter (\<lambda>p. \<not> set_has (List.map_filter
               (processed_name parse (build_newOpMap parse new)) ex)
             (fst p)) (build_newOpMap parse new)
        = filter (\<lambda>p. \<not> names_in parse ex (fst p)) (build_newOpMap parse new)"
    by (rule filter_cong [OF refl]) (metis processed_has prod.collapse)
  then show ?thesis
    by (simp add: merge_entries_def Let_def walk_spec append_new_spec)
qed

lemma no_dup_keys_map_set: "no_dup_keys m \<Longrightarrow> no_dup_keys (map_set m n v)"
proof (induction m)
  case Nil
  then show ?case by simp
next
  case (Cons p m)
  obtain k' v' where p: "p = (k', v')" by (cases p)
  show ?case
  proof (cases "same_value_zero k' n")
    case True
    then show ?thesis using Cons.prems by (simp add: p)
  next
    case False
    have "\<forall>q \<in> set (map_set m n v). \<not> same_value_zero k' (fst q)"
    proof
      fix q assume "q \<in> set (map_set m n v)"
      then have "fst q \<in> insert n (fst ` set m)" using map_set_keys [of m n v] by auto
      then show "\<not> same_value_zero k' (fst q)" using False Cons.prems by (auto simp: p)
    qed
    then show ?thesis using False Cons by (simp add: p)
  qed
qed

lemma no_dup_keys_get:
  "no_dup_keys m \<Longrightarrow> (n, v) \<in> set m \<Longrightarrow> same_value_zero n n \<Longrightarrow> map_get m n = Some v"
proof (induction m)
  case Nil
  then show ?case by simp
next
  case (Cons p m)
  obtain k' v' where p: "p = (k', v')" by (cases p)
  show ?case
  proof (cases "(n, v) = p")
    case True
    then show ?thesis using Cons.prems by (simp add: p)
  next
    case False
    then have mem: "(n, v) \<in> set m" using Cons.prems by simp
    then have "\<not> same_value_zero k' n" using Cons.prems(1) by (auto simp: p)
    then show ?thesis using Cons mem by (simp add: p)
  qed
qed

lemma foldl_newOpMap_no_dup:
  "no_dup_keys m \<Longrightarrow> no_dup_keys (foldl (newOpMap_step parse) m es)"
proof (induction es arbitrary: m)
  case Nil
  then show ?case by simp
next
  case (Cons e es)
  then show ?case
    by (auto simp: newOpMap_step_named no_dup_keys_map_set split: option.splits)
qed

lemma build_newOpMap_no_dup: "no_dup_keys (build_newOpMap parse new)"
  by (simp add: build_newOpMap_def foldl_newOpMap_no_dup)

lemma same_name_reading:
  "same_name parse e \<Longrightarrow>
     map_option operationName (entry_operation parse e) = map_option fst (named_entry parse e)"
  by (cases "named_entry parse e") (auto simp: same_name_def split: jsval.splits)

lemma candidates_unames:
  "\<forall>e \<in> set es. same_name parse e \<Longrightarrow> map operationName (candidates parse es) = unames parse es"
proof (induction es)
  case Nil
  then show ?case by (simp add: candidates_def unames_def)
next
  case (Cons e es)
  then have IH: "map operationName (candidates parse es) = unames parse es" by simp
  from Cons.prems have "map_option operationName (entry_operation parse e) = map_option fst (named_entry parse e)"
    by (simp add: same_name_reading)
  then show ?case using IH
    by (cases "entry_operation parse e"; cases "named_entry parse e")
      (auto simp: candidates_def unames_def)
qed

lemma named_entry_str:
  "same_name parse e \<Longrightarrow> named_entry parse e = Some (n, e') \<Longrightarrow> \<exists>s. n = JStr s"
  by (auto simp: same_name_def split: jsval.splits)

lemma unames_mem:
  "n \<in> set (unames parse es) = (\<exists>e \<in> set es. named_entry parse e = Some (n, e))"
proof
  assume "n \<in> set (unames parse es)"
  then obtain e where e: "e \<in> set es" "named_entry parse e \<noteq> None" "n = fst (the (named_entry parse e))"
    by (auto simp: unames_def map_filter_def)
  then obtain p where p: "named_entry parse e = Some p" by auto
  with e named_entry_snd [of parse e "fst p" "snd p"] show "\<exists>e \<in> set es. named_entry parse e = Some (n, e)"
    by (cases p) auto
next
  assume "\<exists>e \<in> set es. named_entry parse e = Some (n, e)"
  then obtain e where e: "e \<in> set es" "named_entry parse e = Some (n, e)" by blast
  then have "(n, e) \<in> set (List.map_filter (named_entry parse) es)"
    by (force simp: map_filter_def)
  then show "n \<in> set (unames parse es)" by (force simp: unames_def)
qed

lemma unames_str:
  "\<forall>e \<in> set es. same_name parse e \<Longrightarrow> n \<in> set (unames parse es) \<Longrightarrow> \<exists>s. n = JStr s"
  using named_entry_str by (auto simp: unames_mem)

lemma set_has_str: "set_has xs (JStr s) = (JStr s \<in> set xs)"
proof -
  have "same_value_zero x (JStr s) = (x = JStr s)" for x by (cases x) auto
  then show ?thesis by (simp add: set_has_def list_ex_iff)
qed

lemma first_occurrences_from_names:
  "operationName ` set (first_occurrences_from seen cs)
     = {n \<in> operationName ` set cs. \<not> set_has seen n}"
proof (induction cs arbitrary: seen)
  case Nil
  then show ?case by (simp add: first_occurrences_from_Nil)
next
  case (Cons c cs)
  show ?case
  proof (cases "set_has seen (operationName c)")
    case True
    then show ?thesis using Cons [of seen] by (auto simp: first_occurrences_from_Cons)
  next
    case False
    have "same_value_zero (operationName c) n \<Longrightarrow> n = operationName c" for n
      using svz_eq by blast
    then show ?thesis using False Cons [of "seen @ [operationName c]"]
      by (auto simp: first_occurrences_from_Cons set_has_append set_has_Cons set_has_Nil)
  qed
qed

lemma first_occurrences_from_distinct:
  "\<forall>c \<in> set cs. \<exists>s. operationName c = JStr s \<Longrightarrow>
     distinct (map operationName (first_occurrences_from seen cs))"
proof (induction cs arbitrary: seen)
  case Nil
  then show ?case by (simp add: first_occurrences_from_Nil)
next
  case (Cons c cs)
  then obtain s where s: "operationName c = JStr s" by auto
  have "operationName c \<notin> operationName ` set (first_occurrences_from (seen @ [operationName c]) cs)"
    by (simp add: first_occurrences_from_names s set_has_str)
  then show ?case using Cons by (simp add: first_occurrences_from_Cons)
qed

lemma operations_names:
  assumes "\<forall>e \<in> set es. same_name parse e"
  shows "distinct (map operationName (extractGraphQLOperations parse (Har es)))"
    and "set (map operationName (extractGraphQLOperations parse (Har es))) = set (unames parse es)"
proof -
  have str: "\<forall>c \<in> set (candidates parse es). \<exists>s. operationName c = JStr s"
  proof
    fix c assume "c \<in> set (candidates parse es)"
    then have "operationName c \<in> set (map operationName (candidates parse es))" by simp
    then show "\<exists>s. operationName c = JStr s"
      using unames_str [OF assms] by (simp add: candidates_unames [OF assms])
  qed
  show "distinct (map operationName (extractGraphQLOperations parse (Har es)))"
    by (simp add: extractGraphQLOperations_def operations_loop_spec
        first_occurrences_from_distinct [OF str])
  have "set (map operationName (extractGraphQLOperations parse (Har es)))
          = set (map operationName (candidates parse es))"
    by (simp add: extractGraphQLOperations_def operations_loop_spec first_occurrences_from_names
        set_has_Nil)
  then show "set (map operationName (extractGraphQLOperations parse (Har es))) = set (unames parse es)"
    by (simp add: candidates_unames [OF assms])
qed

lemma operations_length:
  assumes "\<forall>e \<in> set es. same_name parse e"
  shows "length (extractGraphQLOperations parse (Har es)) = card (set (unames parse es))"
proof -
  have "length (extractGraphQLOperations parse (Har es))
          = length (map operationName (extractGraphQLOperations parse (Har es)))" by simp
  also have "\<dots> = card (set (map operationName (extractGraphQLOperations parse (Har es))))"
    using operations_names(1) [OF assms] by (rule distinct_card [symmetric])
  finally show ?thesis by (simp only: operations_names(2) [OF assms])
qed

lemma map_set_pairs: "set (map_set m n v) \<subseteq> insert (n, v) (set m)"
proof (induction m)
  case Nil
  then show ?case by simp
next
  case (Cons p m)
  obtain k' v' where p: "p = (k', v')" by (cases p)
  show ?case
  proof (cases "same_value_zero k' n")
    case True
    then have "k' = n" by (rule svz_eq)
    with True show ?thesis by (auto simp: p)
  next
    case False
    with Cons show ?thesis by (auto simp: p)
  qed
qed

lemma map_set_keys_eq: "fst ` set (map_set m n v) = insert n (fst ` set m)"
proof (induction m)
  case Nil
  then show ?case by simp
next
  case (Cons p m)
  obtain k' v' where p: "p = (k', v')" by (cases p)
  show ?case
  proof (cases "same_value_zero k' n")
    case True
    then have "k' = n" by (rule svz_eq)
    with True show ?thesis by (auto simp: p)
  next
    case False
    with Cons show ?thesis by (auto simp: p)
  qed
qed

lemma foldl_newOpMap_pairs:
  "set (foldl (newOpMap_step parse) m es)
     \<subseteq> set m \<union> {(k, e). e \<in> set es \<and> named_entry parse e = Some (k, e)}"
proof (induction es arbitrary: m)
  case Nil
  then show ?case by simp
next
  case (Cons e es)
  show ?case
  proof (cases "named_entry parse e")
    case None
    then have st: "newOpMap_step parse m e = m" by (simp add: newOpMap_step_named)
    show ?thesis unfolding foldl_Cons st using Cons [of m] by auto
  next
    case (Some p)
    obtain k e' where p: "p = (k, e')" by (cases p)
    with Some have e': "e' = e" using named_entry_snd by blast
    from Some p e' have st: "newOpMap_step parse m e = map_set m k e"
      by (simp add: newOpMap_step_named)
    have "set (foldl (newOpMap_step parse) (map_set m k e) es)
            \<subseteq> set (map_set m k e) \<union> {(k, e). e \<in> set es \<and> named_entry parse e = Some (k, e)}"
      by (rule Cons)
    also have "\<dots> \<subseteq> insert (k, e) (set m) \<union> {(k, e). e \<in> set es \<and> named_entry parse e = Some (k, e)}"
      using map_set_pairs [of m k e] by blast
    also have "\<dots> \<subseteq> set m \<union> {(k, e'). e' \<in> set (e # es) \<and> named_entry parse e' = Some (k, e')}"
      using Some p e' by auto
    finally show ?thesis unfolding foldl_Cons st .
  qed
qed

lemma build_newOpMap_pairs:
  "(k, e) \<in> set (build_newOpMap parse new) \<Longrightarrow> e \<in> set new \<and> named_entry parse e = Some (k, e)"
  using foldl_newOpMap_pairs [of parse "[]" new] by (auto simp: build_newOpMap_def)

lemma unames_Cons:
  "unames parse (e # es) =
     (case named_entry parse e of None \<Rightarrow> unames parse es | Some p \<Rightarrow> fst p # unames parse es)"
  by (simp add: unames_def split: option.splits)

lemma foldl_newOpMap_keys:
  "fst ` set (foldl (newOpMap_step parse) m es) = fst ` set m \<union> set (unames parse es)"
proof (induction es arbitrary: m)
  case Nil
  then show ?case by (simp add: unames_def)
next
  case (Cons e es)
  show ?case
  proof (cases "named_entry parse e")
    case None
    then have st: "newOpMap_step parse m e = m" by (simp add: newOpMap_step_named)
    show ?thesis unfolding foldl_Cons st Cons using None by (simp add: unames_Cons)
  next
    case (Some p)
    then have st: "newOpMap_step parse m e = map_set m (fst p) (snd p)"
      by (cases p) (simp add: newOpMap_step_named)
    show ?thesis unfolding foldl_Cons st Cons using Some
      by (simp add: unames_Cons map_set_keys_eq)
  qed
qed

lemma build_newOpMap_keys: "fst ` set (build_newOpMap parse new) = set (unames parse new)"
  by (simp add: build_newOpMap_def foldl_newOpMap_keys)

lemma map_get_Some: "map_get m n = Some v \<Longrightarrow> \<exists>k. (k, v) \<in> set m \<and> same_value_zero k n"
proof (induction m)
  case Nil
  then show ?case by simp
next
  case (Cons p m)
  then show ?case by (cases p) (auto split: if_splits)
qed

lemma named_entry_body: "named_entry parse e = Some (k, e') \<Longrightarrow> body_opName parse e = Some k"
  by (auto simp: named_entry_def split: option.splits if_splits)

lemma named_entry_user:
  "named_entry parse e = Some (k, e') \<Longrightarrow> truthy k \<and> k \<noteq> JStr ''IntrospectionQuery''"
  by (auto simp: named_entry_def split: option.splits if_splits)

lemma replaced_cases:
  "replaced parse (build_newOpMap parse new) e = e
   \<or> (replaced parse (build_newOpMap parse new) e \<in> set new
      \<and> body_opName parse (replaced parse (build_newOpMap parse new) e) = body_opName parse e)"
proof (cases "body_opName parse e")
  case None
  then show ?thesis by (simp add: replaced_def)
next
  case name: (Some n)
  show ?thesis
  proof (cases "map_get (build_newOpMap parse new) n")
    case None
    with name show ?thesis by (simp add: replaced_def)
  next
    case found: (Some e')
    from name found have r: "replaced parse (build_newOpMap parse new) e = e'"
      by (simp add: replaced_def)
    from map_get_Some [OF found]
    obtain k where k: "(k, e') \<in> set (build_newOpMap parse new)" "same_value_zero k n"
      by blast
    from k(2) have "k = n" by (rule svz_eq)
    with k(1) have ke: "(n, e') \<in> set (build_newOpMap parse new)" by simp
    from build_newOpMap_pairs [OF ke] have mem: "e' \<in> set new"
      and ne: "named_entry parse e' = Some (n, e')"
      by simp_all
    from ne have "body_opName parse e' = Some n" by (rule named_entry_body)
    with name have "body_opName parse e' = body_opName parse e" by simp
    with mem show ?thesis unfolding r by blast
  qed
qed

lemma replaced_name:
  "body_opName parse (replaced parse (build_newOpMap parse new) e) = body_opName parse e"
  using replaced_cases [of parse new e] by auto

lemma merge_entries_subset: "set (merge_entries parse ex new) \<subseteq> set ex \<union> set new"
proof
  fix x assume "x \<in> set (merge_entries parse ex new)"
  then consider e where "e \<in> set ex" "x = replaced parse (build_newOpMap parse new) e"
    | p where "p \<in> set (build_newOpMap parse new)" "x = snd p"
    unfolding merge_entries_spec by auto
  then show "x \<in> set ex \<union> set new"
  proof cases
    case 1
    then show ?thesis using replaced_cases [of parse new e] by auto
  next
    case 2
    then have "(fst p, snd p) \<in> set (build_newOpMap parse new)" by simp
    from build_newOpMap_pairs [OF this] 2 show ?thesis by simp
  qed
qed

lemma merge_entries_names:
  "map (body_opName parse) (merge_entries parse ex new) =
     map (body_opName parse) ex
     @ map (\<lambda>p. Some (fst p))
         (filter (\<lambda>p. \<not> names_in parse ex (fst p)) (build_newOpMap parse new))"
proof -
  have "body_opName parse (snd p) = Some (fst p)" if "p \<in> set (build_newOpMap parse new)" for p
  proof -
    from that have "(fst p, snd p) \<in> set (build_newOpMap parse new)" by simp
    from build_newOpMap_pairs [OF this]
    have "named_entry parse (snd p) = Some (fst p, snd p)" by simp
    then show ?thesis by (rule named_entry_body)
  qed
  then show ?thesis by (simp add: merge_entries_spec replaced_name)
qed

lemma named_entry_user_name: "map_option fst (named_entry parse e) = user_name parse e"
  by (simp add: named_entry_def user_name_def split: option.splits)

lemma unames_user_name: "unames parse es = List.map_filter (user_name parse) es"
proof (induction es)
  case Nil
  then show ?case by (simp add: unames_def)
next
  case (Cons e es)
  show ?case
  proof (cases "named_entry parse e")
    case None
    then have "user_name parse e = None" by (simp add: named_entry_user_name [symmetric])
    with None Cons show ?thesis by (simp add: unames_Cons)
  next
    case (Some p)
    then have "user_name parse e = Some (fst p)" by (simp add: named_entry_user_name [symmetric])
    with Some Cons show ?thesis by (simp add: unames_Cons)
  qed
qed

lemma unames_append: "unames parse (xs @ ys) = unames parse xs @ unames parse ys"
  by (simp add: unames_user_name map_filter_def)

lemma user_name_replaced:
  "user_name parse (replaced parse (build_newOpMap parse new) e) = user_name parse e"
  by (simp add: user_name_def replaced_name)

lemma map_filter_replaced:
  "List.map_filter (user_name parse) (map (replaced parse (build_newOpMap parse new)) ex)
     = List.map_filter (user_name parse) ex"
  by (induction ex) (simp_all add: user_name_replaced split: option.splits)

lemma unames_replaced:
  "unames parse (map (replaced parse (build_newOpMap parse new)) ex) = unames parse ex"
  by (simp only: unames_user_name map_filter_replaced)

lemma user_name_lookup:
  assumes "p \<in> set (build_newOpMap parse new)"
  shows "user_name parse (snd p) = Some (fst p)"
proof -
  from assms have "(fst p, snd p) \<in> set (build_newOpMap parse new)" by simp
  from build_newOpMap_pairs [OF this]
  have ne: "named_entry parse (snd p) = Some (fst p, snd p)" by simp
  have "map_option fst (named_entry parse (snd p)) = user_name parse (snd p)"
    by (rule named_entry_user_name)
  with ne show ?thesis by simp
qed

lemma unames_lookup:
  "set ps \<subseteq> set (build_newOpMap parse new) \<Longrightarrow> unames parse (map snd ps) = map fst ps"
proof (induction ps)
  case Nil
  then show ?case by (simp add: unames_def)
next
  case (Cons p ps)
  from Cons.prems have "p \<in> set (build_newOpMap parse new)" by simp
  then have u: "user_name parse (snd p) = Some (fst p)" by (rule user_name_lookup)
  from Cons have "List.map_filter (user_name parse) (map snd ps) = map fst ps"
    by (simp add: unames_user_name)
  with u show ?case by (simp add: unames_user_name)
qed

lemma unames_merge:
  "unames parse (merge_entries parse ex new) =
     unames parse ex
     @ map fst (filter (\<lambda>p. \<not> names_in parse ex (fst p)) (build_newOpMap parse new))"
proof -
  have "unames parse (map snd (filter (\<lambda>p. \<not> names_in parse ex (fst p)) (build_newOpMap parse new)))
          = map fst (filter (\<lambda>p. \<not> names_in parse ex (fst p)) (build_newOpMap parse new))"
    by (rule unames_lookup [where new = new]) auto
  then show ?thesis
    by (simp only: merge_entries_spec unames_append unames_replaced)
qed

lemma svz_str: "same_value_zero x (JStr s) = (x = JStr s)"
  by (cases x) auto

lemma names_in_str:
  assumes "s \<noteq> []" "JStr s \<noteq> JStr ''IntrospectionQuery''"
  shows "names_in parse ex (JStr s) = (JStr s \<in> set (unames parse ex))"
proof -
  have "(case body_opName parse e of Some n' \<Rightarrow> same_value_zero n' (JStr s) | None \<Rightarrow> False)
          = (user_name parse e = Some (JStr s))" for e
    using assms by (cases "body_opName parse e") (auto simp: user_name_def svz_str)
  then have "names_in parse ex (JStr s) = (\<exists>e \<in> set ex. user_name parse e = Some (JStr s))"
    by (simp add: names_in_def list_ex_iff)
  also have "\<dots> = (JStr s \<in> set (unames parse ex))"
    by (force simp: unames_user_name map_filter_def)
  finally show ?thesis .
qed

lemma unames_user: "n \<in> set (unames parse es) \<Longrightarrow> truthy n \<and> n \<noteq> JStr ''IntrospectionQuery''"
proof -
  assume "n \<in> set (unames parse es)"
  then obtain e where "named_entry parse e = Some (n, e)" by (auto simp: unames_mem)
  then show ?thesis by (rule named_entry_user)
qed

lemma names_in_unames:
  assumes "\<forall>e \<in> set new. same_name parse e" "k \<in> set (unames parse new)"
  shows "names_in parse ex k = (k \<in> set (unames parse ex))"
proof -
  from unames_str [OF assms] obtain s where s: "k = JStr s" by blast
  from unames_user [OF assms(2)] have "truthy k" "k \<noteq> JStr ''IntrospectionQuery''" by simp_all
  with s have "s \<noteq> []" "JStr s \<noteq> JStr ''IntrospectionQuery''" by simp_all
  from names_in_str [OF this] show ?thesis by (simp add: s)
qed

lemma unames_merge_set:
  assumes "\<forall>e \<in> set new. same_name parse e"
  shows "set (unames parse (merge_entries parse ex new))
           = set (unames parse ex) \<union> set (unames parse new)"
proof -
  have "fst ` {p \<in> set (build_newOpMap parse new). \<not> names_in parse ex (fst p)}
          = {k \<in> fst ` set (build_newOpMap parse new). \<not> names_in parse ex k}"
    by auto
  also have "\<dots> = {k \<in> set (unames parse new). \<not> names_in parse ex k}"
    by (simp only: build_newOpMap_keys)
  also have "\<dots> = {k \<in> set (unames parse new). k \<notin> set (unames parse ex)}"
    using names_in_unames [OF assms] by blast
  finally have "fst ` {p \<in> set (build_newOpMap parse new). \<not> names_in parse ex (fst p)}
          = set (unames parse new) - set (unames parse ex)"
    by blast
  then show ?thesis by (simp add: unames_merge)
qed

lemma no_dup_keys_distinct:
  "no_dup_keys m \<Longrightarrow> \<forall>k \<in> fst ` set m. \<exists>s. k = JStr s \<Longrightarrow> distinct (map fst m)"
proof (induction m)
  case Nil
  then show ?case by simp
next
  case (Cons p m)
  then obtain s where s: "fst p = JStr s" by auto
  have "fst p \<notin> fst ` set m"
  proof
    assume "fst p \<in> fst ` set m"
    then obtain q where q: "q \<in> set m" "fst q = fst p" by auto
    from Cons.prems(1) q(1) have "\<not> same_value_zero (fst p) (fst q)" by auto
    with q s show False by simp
  qed
  with Cons show ?case by simp
qed

lemma map_filter_via_map: "List.map_filter f xs = List.map_filter (\<lambda>x. x) (map f xs)"
  by (induction xs) (simp_all split: option.splits)

lemma merge_body_names:
  "List.map_filter (body_opName parse) (merge_entries parse ex new) =
     List.map_filter (body_opName parse) ex
     @ map fst (filter (\<lambda>p. \<not> names_in parse ex (fst p)) (build_newOpMap parse new))"
proof -
  have "List.map_filter (\<lambda>x. x) (map (\<lambda>p. Some (fst p)) ps) = map fst ps" for ps :: "(jsval \<times> har_entry) list"
    by (induction ps) simp_all
  then show ?thesis
    unfolding map_filter_via_map [of "body_opName parse"] merge_entries_names
    by (simp add: map_filter_def)
qed

lemma merge_distinct:
  assumes H: "\<forall>e \<in> set new. same_name parse e"
    and d: "distinct (List.map_filter (body_opName parse) ex)"
  shows "distinct (List.map_filter (body_opName parse) (merge_entries parse ex new))"
proof -
  let ?M = "build_newOpMap parse new"
  let ?F = "filter (\<lambda>p. \<not> names_in parse ex (fst p)) ?M"
  have keys: "\<forall>k \<in> fst ` set ?M. \<exists>s. k = JStr s"
    using unames_str [OF H] by (simp add: build_newOpMap_keys)
  have "distinct (map fst ?M)"
    using build_newOpMap_no_dup keys by (rule no_dup_keys_distinct)
  then have dF: "distinct (map fst ?F)" by (rule distinct_map_filter)
  have disj: "set (List.map_filter (body_opName parse) ex) \<inter> set (map fst ?F) = {}"
  proof (rule ccontr)
    assume "set (List.map_filter (body_opName parse) ex) \<inter> set (map fst ?F) \<noteq> {}"
    then obtain k where k1: "k \<in> set (List.map_filter (body_opName parse) ex)"
      and k2: "k \<in> set (map fst ?F)" by blast
    from k2 obtain p where p: "p \<in> set ?M" "\<not> names_in parse ex (fst p)" "k = fst p" by auto
    from p(1,3) keys obtain s where s: "k = JStr s" by auto
    from k1 obtain e where e: "e \<in> set ex" "body_opName parse e = Some k"
      by (auto simp: map_filter_def)
    then have "names_in parse ex k"
      unfolding names_in_def list_ex_iff by (rule_tac x = e in bexI) (simp_all add: s)
    with p show False by simp
  qed
  from d dF disj show ?thesis by (simp add: merge_body_names)
qed

lemma newOps_length:
  assumes Hex: "\<forall>e \<in> set ex. same_name parse e"
    and Hnew: "\<forall>e \<in> set new. same_name parse e"
  shows "length (newOps parse ex new) = card (set (unames parse new) - set (unames parse ex))"
proof -
  let ?E = "map operationName (extractGraphQLOperations parse (Har ex))"
  let ?N = "map operationName (extractGraphQLOperations parse (Har new))"
  let ?P = "\<lambda>n. n \<noteq> JStr ''IntrospectionQuery''"
  let ?Q = "\<lambda>n. \<not> set_has ?E n"
  have dN: "distinct ?N" and sN: "set ?N = set (unames parse new)"
    using operations_names [OF Hnew] by simp_all
  have sE: "set ?E = set (unames parse ex)"
    using operations_names(2) [OF Hex] by simp
  have eq: "newOps parse ex new = filter ?Q (filter ?P ?N)"
    by (simp add: newOps_def Let_def filter_map comp_def)
  have "distinct (filter ?Q (filter ?P ?N))" using dN by simp
  then have "length (filter ?Q (filter ?P ?N)) = card (set (filter ?Q (filter ?P ?N)))"
    by (rule distinct_card [symmetric])
  also have "set (filter ?Q (filter ?P ?N)) = set (unames parse new) - set (unames parse ex)"
  proof -
    have "?P n \<and> ?Q n \<longleftrightarrow> n \<notin> set (unames parse ex)" if "n \<in> set (unames parse new)" for n
    proof -
      from unames_str [OF Hnew that] obtain s where s: "n = JStr s" by blast
      from unames_user [OF that] have "?P n" by simp
      moreover have "set_has ?E n = (n \<in> set ?E)" by (simp only: s set_has_str)
      ultimately show ?thesis by (simp only: sE) simp
    qed
    then show ?thesis using sN by auto
  qed
  finally show ?thesis by (simp only: eq)
qed

lemma merge_operations_length:
  assumes Hex: "\<forall>e \<in> set ex. same_name parse e"
    and Hnew: "\<forall>e \<in> set new. same_name parse e"
  shows "length (extractGraphQLOperations parse (Har (merge_entries parse ex new)))
          = length (extractGraphQLOperations parse (Har ex)) + length (newOps parse ex new)"
proof -
  have Hm: "\<forall>e \<in> set (merge_entries parse ex new). same_name parse e"
    using merge_entries_subset [of parse ex new] Hex Hnew by blast
  have "card (set (unames parse ex) \<union> set (unames parse new))
          = card (set (unames parse ex) \<union> (set (unames parse new) - set (unames parse ex)))"
    by simp
  also have "\<dots> = card (set (unames parse ex)) + card (set (unames parse new) - set (unames parse ex))"
    by (rule card_Un_disjoint) auto
  finally show ?thesis
    by (simp only: operations_length [OF Hm] operations_length [OF Hex] newOps_length [OF Hex Hnew]
        unames_merge_set [OF Hnew])
qed

lemma new_keys_distinct:
  assumes H: "\<forall>e \<in> set new. same_name parse e"
  shows "distinct (map fst (filter (\<lambda>p. \<not> names_in parse ex (fst p)) (build_newOpMap parse new)))"
proof -
  have keys: "\<forall>k \<in> fst ` set (build_newOpMap parse new). \<exists>s. k = JStr s"
    using unames_str [OF H] by (simp add: build_newOpMap_keys)
  have "distinct (map fst (build_newOpMap parse new))"
    using build_newOpMap_no_dup keys by (rule no_dup_keys_distinct)
  then show ?thesis by (rule distinct_map_filter)
qed

lemma new_keys_set:
  assumes H: "\<forall>e \<in> set new. same_name parse e"
  shows "set (map fst (filter (\<lambda>p. \<not> names_in parse ex (fst p)) (build_newOpMap parse new)))
           = set (unames parse new) - set (unames parse ex)"
proof -
  have "set (map fst (filter (\<lambda>p. \<not> names_in parse ex (fst p)) (build_newOpMap parse new)))
          = {k \<in> fst ` set (build_newOpMap parse new). \<not> names_in parse ex k}"
    by auto
  also have "\<dots> = {k \<in> set (unames parse new). \<not> names_in parse ex k}"
    by (simp only: build_newOpMap_keys)
  also have "\<dots> = {k \<in> set (unames parse new). k \<notin> set (unames parse ex)}"
    using names_in_unames [OF H] by blast
  finally show ?thesis by blast
qed

lemma appended_length:
  assumes Hex: "\<forall>e \<in> set ex. same_name parse e"
    and Hnew: "\<forall>e \<in> set new. same_name parse e"
  shows "length (filter (\<lambda>p. \<not> names_in parse ex (fst p)) (build_newOpMap parse new))
           = length (newOps parse ex new)"
proof -
  let ?F = "filter (\<lambda>p. \<not> names_in parse ex (fst p)) (build_newOpMap parse new)"
  have "length ?F = length (map fst ?F)" by simp
  also have "\<dots> = card (set (map fst ?F))"
    using new_keys_distinct [OF Hnew] by (rule distinct_card [symmetric])
  also have "\<dots> = card (set (unames parse new) - set (unames parse ex))"
    by (simp only: new_keys_set [OF Hnew])
  finally show ?thesis by (simp only: newOps_length [OF Hex Hnew])
qed

lemma merge_unames_distinct:
  assumes H: "\<forall>e \<in> set new. same_name parse e"
    and d: "distinct (unames parse ex)"
  shows "distinct (unames parse (merge_entries parse ex new))"
proof -
  have "set (unames parse ex)
          \<inter> set (map fst (filter (\<lambda>p. \<not> names_in parse ex (fst p)) (build_newOpMap parse new))) = {}"
    by (simp only: new_keys_set [OF H]) blast
  with d new_keys_distinct [OF H] show ?thesis
    by (simp only: unames_merge distinct_append)
qed

lemma mergeHarFiles_Har:
  "mergeHarFiles parse (Har ex) (Har new)
     = (if filter (\<lambda>oper. operationName oper \<noteq> JStr ''IntrospectionQuery'')
             (extractGraphQLOperations parse (Har new)) = []
        then NoNewOperations else Merged (merge_entries parse ex new))"
  by (simp add: mergeHarFiles_def Let_def)

lemma first_names_from_Nil: "first_names_from seen [] = []"
  by (simp add: first_names_from_def)

lemma first_names_from_Cons:
  "first_names_from seen (n # ns) =
     (if set_has seen n then first_names_from seen ns
      else n # first_names_from (seen @ [n]) ns)"
proof -
  have up: "[0..<length (n # ns)] = 0 # map Suc [0..<length ns]"
    by (simp add: upt_conv_Cons map_Suc_upt del: upt_Suc)
  show ?thesis
    unfolding first_names_from_def up
    by (simp add: filter_map comp_def set_has_absorb del: upt_Suc)
qed

lemma first_names_eq: "first_names ns = first_names_from [] ns"
  by (simp add: first_names_def first_names_from_def)

lemma map_set_fst:
  "map fst (map_set m n v) = (if set_has (map fst m) n then map fst m else map fst m @ [n])"
proof (induction m)
  case Nil
  then show ?case by (simp add: set_has_Nil)
next
  case (Cons p m)
  obtain k' v' where p: "p = (k', v')" by (cases p)
  show ?case using Cons by (simp add: p set_has_Cons)
qed

lemma foldl_newOpMap_fst:
  "map fst (foldl (newOpMap_step parse) m es)
     = map fst m @ first_names_from (map fst m) (unames parse es)"
proof (induction es arbitrary: m)
  case Nil
  then show ?case by (simp add: unames_def first_names_from_Nil)
next
  case (Cons e es)
  show ?case
  proof (cases "named_entry parse e")
    case None
    then have st: "newOpMap_step parse m e = m" by (simp add: newOpMap_step_named)
    from None have un: "unames parse (e # es) = unames parse es" by (simp add: unames_Cons)
    show ?thesis unfolding foldl_Cons st un by (rule Cons)
  next
    case (Some p)
    obtain n e' where p: "p = (n, e')" by (cases p)
    from Some p have st: "newOpMap_step parse m e = map_set m n e'"
      by (simp add: newOpMap_step_named)
    from Some p have un: "unames parse (e # es) = n # unames parse es" by (simp add: unames_Cons)
    show ?thesis unfolding foldl_Cons st un Cons
      by (simp add: map_set_fst first_names_from_Cons)
  qed
qed

lemma build_newOpMap_fst:
  "map fst (build_newOpMap parse new) = first_names (unames parse new)"
  by (simp add: build_newOpMap_def foldl_newOpMap_fst first_names_eq)

lemma no_dup_keys_tabulate:
  "no_dup_keys m \<Longrightarrow> \<forall>k \<in> fst ` set m. same_value_zero k k \<Longrightarrow>
   \<forall>k \<in> fst ` set m. g k = map_get m k \<Longrightarrow>
     List.map_filter (\<lambda>k. map_option (Pair k) (g k)) (map fst m) = m"
proof (induction m)
  case Nil
  then show ?case by simp
next
  case (Cons p m)
  obtain k v where p: "p = (k, v)" by (cases p)
  from Cons.prems(2) have kk: "same_value_zero k k" by (simp add: p)
  with Cons.prems(3) have gk: "g k = Some v" by (simp add: p)
  have "\<forall>k' \<in> fst ` set m. g k' = map_get m k'"
  proof
    fix k' assume k': "k' \<in> fst ` set m"
    then obtain q where q: "q \<in> set m" "fst q = k'" by auto
    with Cons.prems(1) have "\<not> same_value_zero k k'" by (auto simp: p)
    moreover from Cons.prems(3) k' have "g k' = map_get (p # m) k'" by auto
    ultimately show "g k' = map_get m k'" by (simp add: p)
  qed
  with Cons have "List.map_filter (\<lambda>k. map_option (Pair k) (g k)) (map fst m) = m" by simp
  then show ?case by (simp add: p gk)
qed

lemma unames_fst: "unames parse es = map fst (List.map_filter (named_entry parse) es)"
  by (simp add: unames_def)

lemma build_newOpMap_spec:
  assumes "\<forall>n \<in> set (unames parse new). same_value_zero n n"
  shows "build_newOpMap parse new = lookup_spec (List.map_filter (named_entry parse) new)"
proof -
  let ?M = "build_newOpMap parse new"
  let ?ps = "List.map_filter (named_entry parse) new"
  have r: "\<forall>k \<in> fst ` set ?M. same_value_zero k k"
    using assms by (simp only: build_newOpMap_keys)
  have g: "\<forall>k \<in> fst ` set ?M. last_with_name k ?ps = map_get ?M k"
    by (simp only: build_newOpMap_get) simp
  from no_dup_keys_tabulate [OF build_newOpMap_no_dup r g]
  have "List.map_filter (\<lambda>k. map_option (Pair k) (last_with_name k ?ps)) (map fst ?M) = ?M" .
  then show ?thesis
    by (simp only: lookup_spec_def build_newOpMap_fst unames_fst)
qed

lemma mergeHarFiles_Merged:
  "mergeHarFiles parse (Har ex) (Har new) = Merged es \<Longrightarrow> es = merge_entries parse ex new"
  by (simp add: mergeHarFiles_def Let_def split: if_splits)

text \<open>
  Against claim C1 as stated: when the new archive holds two \<^verbatim>\<open>GetThing\<close> exchanges, the
  merged archive holds the second of them, both where it replaces the existing
  \<^verbatim>\<open>GetThing\<close> exchange and where it is appended to an empty archive.
\<close>

theorem mergeHarFiles_first_occurrence_counterexample:
  "mergeHarFiles demo_parse (Har [post_entry getThing_body ''{}''])
     (Har [post_entry getThing_body thing_response_1, post_entry getThing_body thing_response_2])
     = Merged [post_entry getThing_body thing_response_2]
   \<and> mergeHarFiles demo_parse (Har [])
     (Har [post_entry getThing_body thing_response_1, post_entry getThing_body thing_response_2])
     = Merged [post_entry getThing_body thing_response_2]
   \<and> post_entry getThing_body thing_response_2 \<noteq> post_entry getThing_body thing_response_1"
  by code_simp

text \<open>
  Claim C1, amended. The lookup built from the new archive lists the operation names that
  the bodies carry in \<^verbatim>\<open>operationName\<close> (falsy names and \<^verbatim>\<open>IntrospectionQuery\<close> left out) in
  the order of their first occurrence, and maps each name to the last exchange of the new
  archive that carries it (\<^verbatim>\<open>Map.set\<close> overwrites the value and keeps the key's place). The
  merged archive is the existing entries, each replaced by what the lookup holds under its
  name when it holds something, followed by the exchanges of the lookup whose name no
  existing entry carries, in the order of the lookup; so the exchange that replaces or is
  appended is the last occurrence of its name in the new archive. When no name is an
  object or an array (\<open>same_value_zero n n\<close>), the lookup is \<open>lookup_spec\<close> of the named
  exchanges.
\<close>

theorem mergeHarFiles_lookup_last_occurrence:
  "map_get (build_newOpMap parse new) k = last_with_name k (List.map_filter (named_entry parse) new)
   \<and> map fst (build_newOpMap parse new) = first_names (unames parse new)
   \<and> merge_entries parse ex new =
       map (replaced parse (build_newOpMap parse new)) ex
       @ map snd (filter (\<lambda>p. \<not> names_in parse ex (fst p)) (build_newOpMap parse new))
   \<and> ((n, e) \<in> set (build_newOpMap parse new) \<and> same_value_zero n n \<longrightarrow>
        last_with_name n (List.map_filter (named_entry parse) new) = Some e)
   \<and> ((\<forall>n \<in> set (unames parse new). same_value_zero n n) \<longrightarrow>
        build_newOpMap parse new = lookup_spec (List.map_filter (named_entry parse) new)
        \<and> merge_entries parse ex new =
            map (replaced parse (lookup_spec (List.map_filter (named_entry parse) new))) ex
            @ map snd (filter (\<lambda>p. \<not> names_in parse ex (fst p))
                         (lookup_spec (List.map_filter (named_entry parse) new))))"
proof -
  have a: "map_get (build_newOpMap parse new) k
             = last_with_name k (List.map_filter (named_entry parse) new)"
    by (rule build_newOpMap_get)
  have b: "map fst (build_newOpMap parse new) = first_names (unames parse new)"
    by (rule build_newOpMap_fst)
  have c: "merge_entries parse ex new =
       map (replaced parse (build_newOpMap parse new)) ex
       @ map snd (filter (\<lambda>p. \<not> names_in parse ex (fst p)) (build_newOpMap parse new))"
    by (rule merge_entries_spec)
  have d: "(n, e) \<in> set (build_newOpMap parse new) \<and> same_value_zero n n \<longrightarrow>
        last_with_name n (List.map_filter (named_entry parse) new) = Some e"
  proof
    assume h: "(n, e) \<in> set (build_newOpMap parse new) \<and> same_value_zero n n"
    then have "map_get (build_newOpMap parse new) n = Some e"
      using no_dup_keys_get [OF build_newOpMap_no_dup, of n e parse new] by simp
    then show "last_with_name n (List.map_filter (named_entry parse) new) = Some e"
      by (simp only: build_newOpMap_get)
  qed
  have e: "(\<forall>n \<in> set (unames parse new). same_value_zero n n) \<longrightarrow>
        build_newOpMap parse new = lookup_spec (List.map_filter (named_entry parse) new)
        \<and> merge_entries parse ex new =
            map (replaced parse (lookup_spec (List.map_filter (named_entry parse) new))) ex
            @ map snd (filter (\<lambda>p. \<not> names_in parse ex (fst p))
                         (lookup_spec (List.map_filter (named_entry parse) new)))"
  proof
    assume h: "\<forall>n \<in> set (unames parse new). same_value_zero n n"
    note s = build_newOpMap_spec [OF h]
    from c have "merge_entries parse ex new =
            map (replaced parse (lookup_spec (List.map_filter (named_entry parse) new))) ex
            @ map snd (filter (\<lambda>p. \<not> names_in parse ex (fst p))
                         (lookup_spec (List.map_filter (named_entry parse) new)))"
      by (simp only: s)
    with s show "build_newOpMap parse new = lookup_spec (List.map_filter (named_entry parse) new)
        \<and> merge_entries parse ex new =
            map (replaced parse (lookup_spec (List.map_filter (named_entry parse) new))) ex
            @ map snd (filter (\<lambda>p. \<not> names_in parse ex (fst p))
                         (lookup_spec (List.map_filter (named_entry parse) new)))"
      by (rule conjI)
  qed
  show ?thesis
    by (rule conjI [OF a conjI [OF b conjI [OF c conjI [OF d e]]]])
qed

theorem mergeHarFiles_lookup_last_occurrence_witness:
  "unames demo_parse
     [page_load, post_entry getThing_body thing_response_1, post_entry getOther_named_body ''{}'',
      post_entry getThing_body thing_response_2]
     = [JStr ''GetThing'', JStr ''GetOther'', JStr ''GetThing'']
   \<and> same_value_zero (JStr ''GetThing'') (JStr ''GetThing'')
   \<and> same_value_zero (JStr ''GetOther'') (JStr ''GetOther'')
   \<and> build_newOpMap demo_parse
        [page_load, post_entry getThing_body thing_response_1, post_entry getOther_named_body ''{}'',
         post_entry getThing_body thing_response_2]
       = [(JStr ''GetThing'', post_entry getThing_body thing_response_2),
          (JStr ''GetOther'', post_entry getOther_named_body ''{}'')]
   \<and> merge_entries demo_parse [page_load, post_entry getOther_named_body thing_response_1]
        [page_load, post_entry getThing_body thing_response_1, post_entry getOther_named_body ''{}'',
         post_entry getThing_body thing_response_2]
       = [page_load, post_entry getOther_named_body ''{}'', post_entry getThing_body thing_response_2]
   \<and> merge_entries demo_parse []
        [page_load, post_entry getThing_body thing_response_1, post_entry getOther_named_body ''{}'',
         post_entry getThing_body thing_response_2]
       = [post_entry getThing_body thing_response_2, post_entry getOther_named_body ''{}'']
   \<and> last_with_name (JStr ''GetThing'')
        (List.map_filter (named_entry demo_parse)
           [page_load, post_entry getThing_body thing_response_1,
            post_entry getOther_named_body ''{}'', post_entry getThing_body thing_response_2])
       = Some (post_entry getThing_body thing_response_2)"
proof -
  let ?new = "[page_load, post_entry getThing_body thing_response_1,
               post_entry getOther_named_body ''{}'', post_entry getThing_body thing_response_2]"
  let ?ex = "[page_load, post_entry getOther_named_body thing_response_1]"
  let ?ps = "List.map_filter (named_entry demo_parse) ?new"
  let ?lookup = "[(JStr ''GetThing'', post_entry getThing_body thing_response_2),
                  (JStr ''GetOther'', post_entry getOther_named_body ''{}'')]"
  have u: "unames demo_parse ?new = [JStr ''GetThing'', JStr ''GetOther'', JStr ''GetThing'']"
    by code_simp
  have r1: "same_value_zero (JStr ''GetThing'') (JStr ''GetThing'')"
    by simp
  have r2: "same_value_zero (JStr ''GetOther'') (JStr ''GetOther'')"
    by simp
  from r1 r2 have h: "\<forall>n \<in> set (unames demo_parse ?new). same_value_zero n n"
    by (simp only: u) simp
  have l: "lookup_spec ?ps = ?lookup"
    by code_simp
  have m1: "map (replaced demo_parse ?lookup) ?ex
            @ map snd (filter (\<lambda>p. \<not> names_in demo_parse ?ex (fst p)) ?lookup)
            = [page_load, post_entry getOther_named_body ''{}'',
               post_entry getThing_body thing_response_2]"
    by code_simp
  have m2: "map (replaced demo_parse ?lookup) []
            @ map snd (filter (\<lambda>p. \<not> names_in demo_parse [] (fst p)) ?lookup)
            = [post_entry getThing_body thing_response_2, post_entry getOther_named_body ''{}'']"
    by code_simp
  note t1 = mergeHarFiles_lookup_last_occurrence
      [where parse = demo_parse and new = ?new and ex = ?ex and n = "JStr ''GetThing''"
         and e = "post_entry getThing_body thing_response_2"]
  note t2 = mergeHarFiles_lookup_last_occurrence
      [where parse = demo_parse and new = ?new and ex = "[]"]
  from t1 h have b: "build_newOpMap demo_parse ?new = lookup_spec ?ps"
    and g1: "merge_entries demo_parse ?ex ?new =
            map (replaced demo_parse (lookup_spec ?ps)) ?ex
            @ map snd (filter (\<lambda>p. \<not> names_in demo_parse ?ex (fst p)) (lookup_spec ?ps))"
    by blast+
  from t2 h have g2: "merge_entries demo_parse [] ?new =
            map (replaced demo_parse (lookup_spec ?ps)) []
            @ map snd (filter (\<lambda>p. \<not> names_in demo_parse [] (fst p)) (lookup_spec ?ps))"
    by blast
  note b' = b [unfolded l]
  note g1' = g1 [unfolded l, unfolded m1]
  note g2' = g2 [unfolded l, unfolded m2]
  have mem: "(JStr ''GetThing'', post_entry getThing_body thing_response_2)
               \<in> set (build_newOpMap demo_parse ?new)"
    by (simp only: b') simp
  from t1 mem r1 have lw: "last_with_name (JStr ''GetThing'') ?ps
                             = Some (post_entry getThing_body thing_response_2)"
    by blast
  show ?thesis
    by (rule conjI [OF u conjI [OF r1 conjI [OF r2 conjI [OF b' conjI [OF g1' conjI [OF g2' lw]]]]]])
qed

text \<open>
  Against claim C6 as stated. A new archive whose only exchange names its operation in the
  query text alone (no \<^verbatim>\<open>operationName\<close> property) contributes one brand-new name, yet
  the merged archive is the existing one and carries one operation, not two. And an
  existing archive with two \<^verbatim>\<open>GetThing\<close> exchanges merges into an archive with the new
  \<^verbatim>\<open>GetThing\<close> exchange twice.
\<close>

theorem mergeHarFiles_cardinality_counterexample:
  "mergeHarFiles demo_parse (Har [post_entry getThing_body thing_response_1])
     (Har [post_entry getOther_body ''{}''])
     = Merged [post_entry getThing_body thing_response_1]
   \<and> newOps demo_parse [post_entry getThing_body thing_response_1] [post_entry getOther_body ''{}'']
     = [JStr ''GetOther'']
   \<and> length (extractGraphQLOperations demo_parse (Har [post_entry getThing_body thing_response_1])) = 1
   \<and> length (extractGraphQLOperations demo_parse
        (Har (merge_entries demo_parse [post_entry getThing_body thing_response_1]
                [post_entry getOther_body ''{}'']))) = 1
   \<and> mergeHarFiles demo_parse
        (Har [post_entry getThing_body thing_response_1, post_entry getThing_body ''{}''])
        (Har [post_entry getThing_body thing_response_2])
     = Merged [post_entry getThing_body thing_response_2, post_entry getThing_body thing_response_2]"
  by code_simp

text \<open>
  Claim C6, amended. The merged archive has as many exchanges as the existing one plus the
  appended ones, and the merger writes it whenever the new archive holds an operation.
  When the extractor and the merger read the same name (a string) or both none from every
  exchange of both archives (\<open>same_name\<close>: page loads, bodies that are not JSON and
  introspection exchanges are allowed), the appended exchanges are as many as the
  brand-new names (\<^verbatim>\<open>newOps\<close>), the merged archive carries as many operations as the
  existing one plus the brand-new names, and if no two existing exchanges carry the same
  name then no two merged exchanges do.
\<close>

theorem mergeHarFiles_cardinality:
  "length (merge_entries parse ex new)
     = length ex + length (filter (\<lambda>p. \<not> names_in parse ex (fst p)) (build_newOpMap parse new))
   \<and> mergeHarFiles parse (Har ex) (Har new)
       = (if filter (\<lambda>oper. operationName oper \<noteq> JStr ''IntrospectionQuery'')
               (extractGraphQLOperations parse (Har new)) = []
          then NoNewOperations else Merged (merge_entries parse ex new))
   \<and> ((\<forall>e \<in> set ex \<union> set new. same_name parse e) \<longrightarrow>
        length (merge_entries parse ex new) = length ex + length (newOps parse ex new)
        \<and> length (extractGraphQLOperations parse (Har (merge_entries parse ex new)))
            = length (extractGraphQLOperations parse (Har ex)) + length (newOps parse ex new)
        \<and> (distinct (unames parse ex) \<longrightarrow>
             distinct (unames parse (merge_entries parse ex new)))
        \<and> (distinct (List.map_filter (body_opName parse) ex) \<longrightarrow>
             distinct (List.map_filter (body_opName parse) (merge_entries parse ex new))))"
proof -
  have a: "length (merge_entries parse ex new)
     = length ex + length (filter (\<lambda>p. \<not> names_in parse ex (fst p)) (build_newOpMap parse new))"
    by (simp add: merge_entries_spec)
  have b: "mergeHarFiles parse (Har ex) (Har new)
       = (if filter (\<lambda>oper. operationName oper \<noteq> JStr ''IntrospectionQuery'')
               (extractGraphQLOperations parse (Har new)) = []
          then NoNewOperations else Merged (merge_entries parse ex new))"
    by (rule mergeHarFiles_Har)
  have c: "(\<forall>e \<in> set ex \<union> set new. same_name parse e) \<longrightarrow>
        length (merge_entries parse ex new) = length ex + length (newOps parse ex new)
        \<and> length (extractGraphQLOperations parse (Har (merge_entries parse ex new)))
            = length (extractGraphQLOperations parse (Har ex)) + length (newOps parse ex new)
        \<and> (distinct (unames parse ex) \<longrightarrow>
             distinct (unames parse (merge_entries parse ex new)))
        \<and> (distinct (List.map_filter (body_opName parse) ex) \<longrightarrow>
             distinct (List.map_filter (body_opName parse) (merge_entries parse ex new)))"
  proof
    assume H: "\<forall>e \<in> set ex \<union> set new. same_name parse e"
    then have Hex: "\<forall>e \<in> set ex. same_name parse e"
      and Hnew: "\<forall>e \<in> set new. same_name parse e" by blast+
    have c1: "length (merge_entries parse ex new) = length ex + length (newOps parse ex new)"
      by (simp only: a appended_length [OF Hex Hnew])
    show "length (merge_entries parse ex new) = length ex + length (newOps parse ex new)
        \<and> length (extractGraphQLOperations parse (Har (merge_entries parse ex new)))
            = length (extractGraphQLOperations parse (Har ex)) + length (newOps parse ex new)
        \<and> (distinct (unames parse ex) \<longrightarrow>
             distinct (unames parse (merge_entries parse ex new)))
        \<and> (distinct (List.map_filter (body_opName parse) ex) \<longrightarrow>
             distinct (List.map_filter (body_opName parse) (merge_entries parse ex new)))"
      using c1 merge_operations_length [OF Hex Hnew] merge_unames_distinct [OF Hnew]
        merge_distinct [OF Hnew] by blast
  qed
  from a b c show ?thesis by blast
qed

theorem mergeHarFiles_cardinality_witness:
  "same_name demo_parse page_load
   \<and> same_name demo_parse (post_entry introspection_body ''{}'')
   \<and> same_name demo_parse (post_entry ''not json'' ''{}'')
   \<and> same_name demo_parse (post_entry getThing_body thing_response_1)
   \<and> same_name demo_parse (post_entry getThing_body thing_response_2)
   \<and> same_name demo_parse (post_entry getOther_named_body ''{}'')
   \<and> distinct (unames demo_parse
        [page_load, post_entry introspection_body ''{}'', post_entry getThing_body thing_response_1])
   \<and> mergeHarFiles demo_parse
        (Har [page_load, post_entry introspection_body ''{}'',
              post_entry getThing_body thing_response_1])
        (Har [page_load, post_entry introspection_body ''{}'', post_entry ''not json'' ''{}'',
              post_entry getThing_body thing_response_2, post_entry getOther_named_body ''{}''])
      = Merged [page_load, post_entry introspection_body ''{}'',
                post_entry getThing_body thing_response_2, post_entry getOther_named_body ''{}'']
   \<and> newOps demo_parse
        [page_load, post_entry introspection_body ''{}'', post_entry getThing_body thing_response_1]
        [page_load, post_entry introspection_body ''{}'', post_entry ''not json'' ''{}'',
         post_entry getThing_body thing_response_2, post_entry getOther_named_body ''{}'']
      = [JStr ''GetOther'']
   \<and> length (extractGraphQLOperations demo_parse
        (Har [page_load, post_entry introspection_body ''{}'',
              post_entry getThing_body thing_response_1])) = 1
   \<and> length (extractGraphQLOperations demo_parse
        (Har [page_load, post_entry introspection_body ''{}'',
              post_entry getThing_body thing_response_2, post_entry getOther_named_body ''{}''])) = 2
   \<and> distinct (unames demo_parse
        [page_load, post_entry introspection_body ''{}'',
         post_entry getThing_body thing_response_2, post_entry getOther_named_body ''{}''])"
proof -
  let ?ex = "[page_load, post_entry introspection_body ''{}'',
              post_entry getThing_body thing_response_1]"
  let ?new = "[page_load, post_entry introspection_body ''{}'', post_entry ''not json'' ''{}'',
               post_entry getThing_body thing_response_2, post_entry getOther_named_body ''{}'']"
  let ?merged = "[page_load, post_entry introspection_body ''{}'',
                  post_entry getThing_body thing_response_2, post_entry getOther_named_body ''{}'']"
  have s1: "same_name demo_parse page_load"
    by code_simp
  have s2: "same_name demo_parse (post_entry introspection_body ''{}'')"
    by code_simp
  have s3: "same_name demo_parse (post_entry ''not json'' ''{}'')"
    by code_simp
  have s4: "same_name demo_parse (post_entry getThing_body thing_response_1)"
    by code_simp
  have s5: "same_name demo_parse (post_entry getThing_body thing_response_2)"
    by code_simp
  have s6: "same_name demo_parse (post_entry getOther_named_body ''{}'')"
    by code_simp
  from s1 s2 s3 s4 s5 s6 have h1: "\<forall>e \<in> set ?ex \<union> set ?new. same_name demo_parse e"
    by simp
  have h2: "distinct (unames demo_parse ?ex)"
    by code_simp
  have ops: "filter (\<lambda>oper. operationName oper \<noteq> JStr ''IntrospectionQuery'')
               (extractGraphQLOperations demo_parse (Har ?new)) \<noteq> []"
    by code_simp
  have m: "merge_entries demo_parse ?ex ?new = ?merged"
    by code_simp
  have n: "newOps demo_parse ?ex ?new = [JStr ''GetOther'']"
    by code_simp
  have e: "length (extractGraphQLOperations demo_parse (Har ?ex)) = 1"
    by code_simp
  note t = mergeHarFiles_cardinality [of demo_parse ?ex ?new]
  from t ops have r1: "mergeHarFiles demo_parse (Har ?ex) (Har ?new)
                         = Merged (merge_entries demo_parse ?ex ?new)"
    by simp
  from t h1 h2 have r2:
    "length (extractGraphQLOperations demo_parse (Har (merge_entries demo_parse ?ex ?new)))
       = length (extractGraphQLOperations demo_parse (Har ?ex)) + length (newOps demo_parse ?ex ?new)
     \<and> distinct (unames demo_parse (merge_entries demo_parse ?ex ?new))"
    by blast
  note r1' = r1 [unfolded m]
  from r2 have r3: "length (extractGraphQLOperations demo_parse (Har ?merged)) = 2"
    and r4: "distinct (unames demo_parse ?merged)"
    by (simp_all only: m n e) simp_all
  show ?thesis
    by (rule conjI [OF s1 conjI [OF s2 conjI [OF s3 conjI [OF s4 conjI [OF s5 conjI [OF s6
          conjI [OF h2 conjI [OF r1' conjI [OF n conjI [OF e conjI [OF r3 r4]]]]]]]]]]])
qed

section \<open>The drift validator\<close>

lemma compareSchemas_sorted:
  "sorted (added (compareSchemas m l)) \<and> sorted (removed (compareSchemas m l))"
  by (simp add: compareSchemas_def Let_def)

lemma country_comparison:
  "compareSchemas country_mock country_live =
     \<lparr>added = [''country.capital''], removed = [],
      unchanged = [''country'', ''country.code'', ''country.name'']\<rparr>"
  by code_simp

lemma show_nat_1: "show_nat (Suc 0) = ''1''"
  by code_simp

text \<open>
  Claim C2. When the stored mock's data is \<^verbatim>\<open>{country:{code,name}}\<close> and the live server
  answers \<^verbatim>\<open>{country:{code,name,capital}}\<close> with no errors, the validator reports the
  operation as \<^verbatim>\<open>DRIFT\<close> with the added fields \<^verbatim>\<open>country.capital\<close> and no removed
  field. The two lists of every comparison are sorted.
\<close>

theorem validate_country_drift:
  "(getMockData parse (readMock (operationName oper)) = country_mock
    \<and> queryLiveServer (fetch (operationName oper) (query oper))
        = \<lparr>data = country_live, errors = JUndefined\<rparr>
    \<longrightarrow> validate_operation parse readMock fetch to_string oper
        = Inr \<lparr>vr_operationName = operationName oper, vr_status = DRIFT,
               vr_message = ''Schema drift: 1 added'',
               vr_added = Some [''country.capital''], vr_removed = Some []\<rparr>)
   \<and> sorted (added (compareSchemas mockData liveData))
   \<and> sorted (removed (compareSchemas mockData liveData))"
proof -
  have "validate_operation parse readMock fetch to_string oper
        = Inr \<lparr>vr_operationName = operationName oper, vr_status = DRIFT,
               vr_message = ''Schema drift: 1 added'',
               vr_added = Some [''country.capital''], vr_removed = Some []\<rparr>"
    if m: "getMockData parse (readMock (operationName oper)) = country_mock"
      and l: "queryLiveServer (fetch (operationName oper) (query oper))
        = \<lparr>data = country_live, errors = JUndefined\<rparr>"
  proof -
    have tm: "truthy country_mock" and tl: "truthy country_live"
      by (simp_all add: country_mock_def country_live_def)
    show ?thesis
      unfolding validate_operation_def m l Let_def
      by (simp add: tm tl country_comparison show_nat_1)
  qed
  then show ?thesis using compareSchemas_sorted by blast
qed

theorem validate_country_drift_witness:
  "getMockData country_parse (Some country_mock_file) = country_mock
   \<and> queryLiveServer (Resolved True 200 (Inr (JObj [(''data'', country_live)])))
       = \<lparr>data = country_live, errors = JUndefined\<rparr>
   \<and> validate_operation country_parse (\<lambda>n. Some country_mock_file)
        (\<lambda>n q. Resolved True 200 (Inr (JObj [(''data'', country_live)]))) (\<lambda>v. []) getCountry
       = Inr \<lparr>vr_operationName = JStr ''GetCountry'', vr_status = DRIFT,
              vr_message = ''Schema drift: 1 added'',
              vr_added = Some [''country.capital''], vr_removed = Some []\<rparr>"
proof -
  have h1: "getMockData country_parse (Some country_mock_file) = country_mock"
    by code_simp
  have h2: "queryLiveServer (Resolved True 200 (Inr (JObj [(''data'', country_live)])))
       = \<lparr>data = country_live, errors = JUndefined\<rparr>"
    by (simp add: queryLiveServer_def)
  have n: "operationName getCountry = JStr ''GetCountry''"
    by (simp add: getCountry_def)
  from validate_country_drift
         [of country_parse "\<lambda>n. Some country_mock_file" getCountry
             "\<lambda>n q. Resolved True 200 (Inr (JObj [(''data'', country_live)]))" "\<lambda>v. []"]
       h1 h2
  show ?thesis by (simp add: n)
qed

lemma validate_missing:
  "\<not> truthy (getMockData parse (readMock (operationName oper))) \<Longrightarrow>
     validate_operation parse readMock fetch to_string oper
       = Inr (plain_result (operationName oper) DRIFT ''Mock file not found or couldn't parse data'')"
  by (simp add: validate_operation_def plain_result_def)

lemma validate_errors:
  "truthy (getMockData parse (readMock (operationName oper))) \<Longrightarrow>
   queryLiveServer (fetch (operationName oper) (query oper)) = \<lparr>data = d, errors = errs\<rparr> \<Longrightarrow>
   truthy errs \<Longrightarrow> errorMsg to_string errs = Some emsg \<Longrightarrow>
     validate_operation parse readMock fetch to_string oper
       = Inr (plain_result (operationName oper) ERROR (''Live server returned errors: '' @ emsg))"
  by (simp add: validate_operation_def plain_result_def Let_def)

lemma validate_removed:
  "truthy (getMockData parse (readMock (operationName oper))) \<Longrightarrow>
   queryLiveServer (fetch (operationName oper) (query oper)) = \<lparr>data = d, errors = errs\<rparr> \<Longrightarrow>
   \<not> truthy errs \<Longrightarrow> \<not> truthy d \<Longrightarrow>
     validate_operation parse readMock fetch to_string oper
       = Inr (plain_result (operationName oper) REMOVED ''Operation may have been removed from API'')"
  by (simp add: validate_operation_def plain_result_def Let_def)

lemma validate_compared:
  "truthy (getMockData parse (readMock (operationName oper))) \<Longrightarrow>
   queryLiveServer (fetch (operationName oper) (query oper)) = \<lparr>data = d, errors = errs\<rparr> \<Longrightarrow>
   \<not> truthy errs \<Longrightarrow> truthy d \<Longrightarrow>
     validate_operation parse readMock fetch to_string oper
       = Inr (comparison_result (operationName oper)
                (compareSchemas (getMockData parse (readMock (operationName oper))) d))"
  by (simp add: validate_operation_def comparison_result_def plain_result_def Let_def)

lemma query_error_result:
  "errorMsg to_string (errors (error_result msg)) = Some msg \<and> truthy (errors (error_result msg))"
  by (simp add: error_result_def errorMsg_def message_text_def)

lemma error_result_eq: "error_result msg = \<lparr>data = JUndefined, errors = JArr [JObj [(''message'', JStr msg)]]\<rparr>"
  by (simp add: error_result_def)

lemma query_json:
  "get_prop json ''errors'' = Some errs \<Longrightarrow> get_prop json ''data'' = Some d \<Longrightarrow>
     queryLiveServer (Resolved True status (Inr json))
       = (if truthy errs then \<lparr>data = JUndefined, errors = errs\<rparr>
          else \<lparr>data = d, errors = JUndefined\<rparr>)"
  by (simp add: queryLiveServer_def)

text \<open>
  Claim C7. The validator decides in this order. When \<^verbatim>\<open>getMockData\<close> yields nothing (as it
  does when the mock file cannot be read), the result is \<^verbatim>\<open>DRIFT\<close> with the message that
  the mock was not found, whatever the live server would answer. Otherwise, when the request
  is rejected, when the response is not \<^verbatim>\<open>ok\<close>, when its body cannot be read as JSON, and
  when the body carries a list of errors (the structured error payload, also beside data),
  the result is \<^verbatim>\<open>ERROR\<close> with the messages joined by a comma. Otherwise, when the data of
  the body is falsy (\<^verbatim>\<open>null\<close> and \<^verbatim>\<open>undefined\<close>, the value of an absent key, are), the
  result is \<^verbatim>\<open>REMOVED\<close>. Otherwise (the empty object is truthy) the result is the one of
  the comparison of the field paths, \<^verbatim>\<open>OK\<close> or \<^verbatim>\<open>DRIFT\<close>, and such a result is reached in
  no other case.
\<close>

theorem validate_operation_precedence:
  "(\<not> truthy (getMockData parse (readMock (operationName oper))) \<longrightarrow>
      validate_operation parse readMock fetch to_string oper
        = Inr (plain_result (operationName oper) DRIFT ''Mock file not found or couldn't parse data'')
      \<and> validate_operation parse readMock fetch' to_string oper
          = validate_operation parse readMock fetch to_string oper)
   \<and> (readMock (operationName oper) = None \<longrightarrow>
        \<not> truthy (getMockData parse (readMock (operationName oper))))
   \<and> (truthy (getMockData parse (readMock (operationName oper)))
        \<and> fetch (operationName oper) (query oper) = Rejected msg
        \<longrightarrow> validate_operation parse readMock fetch to_string oper
            = Inr (plain_result (operationName oper) ERROR (''Live server returned errors: '' @ msg)))
   \<and> (truthy (getMockData parse (readMock (operationName oper)))
        \<and> fetch (operationName oper) (query oper) = Resolved False status body
        \<longrightarrow> validate_operation parse readMock fetch to_string oper
            = Inr (plain_result (operationName oper) ERROR
                     (''Live server returned errors: HTTP '' @ show_nat status)))
   \<and> (truthy (getMockData parse (readMock (operationName oper)))
        \<and> fetch (operationName oper) (query oper) = Resolved True status (Inl msg)
        \<longrightarrow> validate_operation parse readMock fetch to_string oper
            = Inr (plain_result (operationName oper) ERROR (''Live server returned errors: '' @ msg)))
   \<and> (truthy (getMockData parse (readMock (operationName oper)))
        \<and> fetch (operationName oper) (query oper) = Resolved True status (Inr json)
        \<and> get_prop json ''errors'' = Some (JArr es) \<and> error_messages es = Some ms
        \<longrightarrow> validate_operation parse readMock fetch to_string oper
            = Inr (plain_result (operationName oper) ERROR
                     (''Live server returned errors: ''
                      @ join_with '', '' (map (message_text to_string) ms))))
   \<and> (truthy (getMockData parse (readMock (operationName oper)))
        \<and> fetch (operationName oper) (query oper) = Resolved True status (Inr json)
        \<and> get_prop json ''errors'' = Some errs \<and> \<not> truthy errs
        \<and> get_prop json ''data'' = Some d \<and> \<not> truthy d
        \<longrightarrow> validate_operation parse readMock fetch to_string oper
            = Inr (plain_result (operationName oper) REMOVED
                     ''Operation may have been removed from API''))
   \<and> (truthy (getMockData parse (readMock (operationName oper)))
        \<and> fetch (operationName oper) (query oper) = Resolved True status (Inr json)
        \<and> get_prop json ''errors'' = Some errs \<and> \<not> truthy errs
        \<and> get_prop json ''data'' = Some d \<and> truthy d
        \<longrightarrow> validate_operation parse readMock fetch to_string oper
            = Inr (comparison_result (operationName oper)
                     (compareSchemas (getMockData parse (readMock (operationName oper))) d)))
   \<and> (\<not> truthy JNull \<and> \<not> truthy JUndefined \<and> truthy (JObj [])
        \<and> get_prop (JObj []) ''data'' = Some JUndefined)
   \<and> vr_status (comparison_result name comparison)
        = (if added comparison = [] \<and> removed comparison = [] then OK else DRIFT)
   \<and> (validate_operation parse readMock fetch to_string oper = Inr r
        \<and> (vr_status r = OK \<or> vr_added r \<noteq> None)
        \<longrightarrow> truthy (getMockData parse (readMock (operationName oper)))
            \<and> \<not> truthy (errors (queryLiveServer (fetch (operationName oper) (query oper))))
            \<and> truthy (data (queryLiveServer (fetch (operationName oper) (query oper))))
            \<and> r = comparison_result (operationName oper)
                    (compareSchemas (getMockData parse (readMock (operationName oper)))
                       (data (queryLiveServer (fetch (operationName oper) (query oper))))))"
proof -
  let ?mock = "getMockData parse (readMock (operationName oper))"
  let ?f = "fetch (operationName oper) (query oper)"
  have a: "\<not> truthy ?mock \<longrightarrow>
      validate_operation parse readMock fetch to_string oper
        = Inr (plain_result (operationName oper) DRIFT ''Mock file not found or couldn't parse data'')
      \<and> validate_operation parse readMock fetch' to_string oper
          = validate_operation parse readMock fetch to_string oper"
    by (simp add: validate_missing)
  have b: "readMock (operationName oper) = None \<longrightarrow> \<not> truthy ?mock"
    by (simp add: getMockData_def)
  have err: "validate_operation parse readMock fetch to_string oper
            = Inr (plain_result (operationName oper) ERROR (''Live server returned errors: '' @ m))"
    if "truthy ?mock" "queryLiveServer ?f = error_result m" for m
    using that query_error_result [of to_string m]
    by (intro validate_errors [where parse = parse and readMock = readMock and fetch = fetch and oper = oper and to_string = to_string and d = JUndefined and errs = "errors (error_result m)"])
      (simp_all add: error_result_def)
  have c: "truthy ?mock \<and> ?f = Rejected msg
        \<longrightarrow> validate_operation parse readMock fetch to_string oper
            = Inr (plain_result (operationName oper) ERROR (''Live server returned errors: '' @ msg))"
    using err [of msg] by (simp add: queryLiveServer_def)
  have d: "truthy ?mock \<and> ?f = Resolved False status body
        \<longrightarrow> validate_operation parse readMock fetch to_string oper
            = Inr (plain_result (operationName oper) ERROR
                     (''Live server returned errors: HTTP '' @ show_nat status))"
    using err [of "''HTTP '' @ show_nat status"] by (simp add: queryLiveServer_def)
  have e: "truthy ?mock \<and> ?f = Resolved True status (Inl msg)
        \<longrightarrow> validate_operation parse readMock fetch to_string oper
            = Inr (plain_result (operationName oper) ERROR (''Live server returned errors: '' @ msg))"
    using err [of msg] by (simp add: queryLiveServer_def)
  have f: "truthy ?mock \<and> ?f = Resolved True status (Inr json)
        \<and> get_prop json ''errors'' = Some (JArr es) \<and> error_messages es = Some ms
        \<longrightarrow> validate_operation parse readMock fetch to_string oper
            = Inr (plain_result (operationName oper) ERROR
                     (''Live server returned errors: ''
                      @ join_with '', '' (map (message_text to_string) ms)))"
  proof (intro impI, elim conjE)
    assume m: "truthy ?mock" and q: "?f = Resolved True status (Inr json)"
      and g: "get_prop json ''errors'' = Some (JArr es)" and ms: "error_messages es = Some ms"
    from q g have "queryLiveServer ?f = \<lparr>data = JUndefined, errors = JArr es\<rparr>"
      by (simp add: queryLiveServer_def)
    from validate_errors [where parse = parse and readMock = readMock and fetch = fetch and oper = oper and to_string = to_string and emsg = "join_with '', '' (map (message_text to_string) ms)", OF m this] ms
    show "validate_operation parse readMock fetch to_string oper
            = Inr (plain_result (operationName oper) ERROR
                     (''Live server returned errors: ''
                      @ join_with '', '' (map (message_text to_string) ms)))"
      by (simp add: errorMsg_def)
  qed
  have g: "truthy ?mock \<and> ?f = Resolved True status (Inr json)
        \<and> get_prop json ''errors'' = Some errs \<and> \<not> truthy errs
        \<and> get_prop json ''data'' = Some d \<and> \<not> truthy d
        \<longrightarrow> validate_operation parse readMock fetch to_string oper
            = Inr (plain_result (operationName oper) REMOVED
                     ''Operation may have been removed from API'')"
  proof (intro impI, elim conjE)
    assume m: "truthy ?mock" and q: "?f = Resolved True status (Inr json)"
      and ge: "get_prop json ''errors'' = Some errs" and ne: "\<not> truthy errs"
      and gd: "get_prop json ''data'' = Some d" and nd: "\<not> truthy d"
    from q ge ne gd have "queryLiveServer ?f = \<lparr>data = d, errors = JUndefined\<rparr>"
      by (simp add: query_json)
    from validate_removed [where parse = parse and readMock = readMock and fetch = fetch and oper = oper and to_string = to_string, OF m this _ nd]
    show "validate_operation parse readMock fetch to_string oper
            = Inr (plain_result (operationName oper) REMOVED
                     ''Operation may have been removed from API'')"
      by simp
  qed
  have h: "truthy ?mock \<and> ?f = Resolved True status (Inr json)
        \<and> get_prop json ''errors'' = Some errs \<and> \<not> truthy errs
        \<and> get_prop json ''data'' = Some d \<and> truthy d
        \<longrightarrow> validate_operation parse readMock fetch to_string oper
            = Inr (comparison_result (operationName oper) (compareSchemas ?mock d))"
  proof (intro impI, elim conjE)
    assume m: "truthy ?mock" and q: "?f = Resolved True status (Inr json)"
      and ge: "get_prop json ''errors'' = Some errs" and ne: "\<not> truthy errs"
      and gd: "get_prop json ''data'' = Some d" and td: "truthy d"
    from q ge ne gd have "queryLiveServer ?f = \<lparr>data = d, errors = JUndefined\<rparr>"
      by (simp add: query_json)
    from validate_compared [where parse = parse and readMock = readMock and fetch = fetch and oper = oper and to_string = to_string, OF m this _ td]
    show "validate_operation parse readMock fetch to_string oper
            = Inr (comparison_result (operationName oper) (compareSchemas ?mock d))"
      by simp
  qed
  have i: "\<not> truthy JNull \<and> \<not> truthy JUndefined \<and> truthy (JObj [])
        \<and> get_prop (JObj []) ''data'' = Some JUndefined"
    by simp
  have j: "vr_status (comparison_result name comparison)
        = (if added comparison = [] \<and> removed comparison = [] then OK else DRIFT)"
    by (simp add: comparison_result_def plain_result_def)
  have k: "validate_operation parse readMock fetch to_string oper = Inr r
        \<and> (vr_status r = OK \<or> vr_added r \<noteq> None)
        \<longrightarrow> truthy ?mock
            \<and> \<not> truthy (errors (queryLiveServer ?f))
            \<and> truthy (data (queryLiveServer ?f))
            \<and> r = comparison_result (operationName oper)
                    (compareSchemas ?mock (data (queryLiveServer ?f)))"
    unfolding validate_operation_def Let_def comparison_result_def plain_result_def
    by (auto split: if_splits option.splits)
  show ?thesis
    by (rule conjI [OF a conjI [OF b conjI [OF c conjI [OF d conjI [OF e conjI [OF f
          conjI [OF g conjI [OF h conjI [OF i conjI [OF j k]]]]]]]]]])
qed

theorem validate_operation_precedence_witness:
  "\<not> truthy (getMockData country_parse ((\<lambda>n. None) (operationName getCountry)))
   \<and> validate_operation country_parse (\<lambda>n. None) (\<lambda>n q. Rejected ''socket hang up'') (\<lambda>v. [])
        getCountry
       = Inr (plain_result (JStr ''GetCountry'') DRIFT ''Mock file not found or couldn't parse data'')
   \<and> truthy (getMockData country_parse (Some country_mock_file))
   \<and> validate_operation country_parse (\<lambda>n. Some country_mock_file)
        (\<lambda>n q. Resolved False 503 (Inl [])) (\<lambda>v. []) getCountry
       = Inr (plain_result (JStr ''GetCountry'') ERROR ''Live server returned errors: HTTP 503'')
   \<and> validate_operation country_parse (\<lambda>n. Some country_mock_file)
        (\<lambda>n q. Resolved True 200
                  (Inr (JObj [(''errors'', JArr [JObj [(''message'', JStr ''boom'')],
                                                 JObj [(''message'', JStr ''bang'')]]),
                              (''data'', country_live)])))
        (\<lambda>v. []) getCountry
       = Inr (plain_result (JStr ''GetCountry'') ERROR ''Live server returned errors: boom, bang'')
   \<and> validate_operation country_parse (\<lambda>n. Some country_mock_file)
        (\<lambda>n q. Resolved True 200 (Inr (JObj [(''data'', JNull)]))) (\<lambda>v. []) getCountry
       = Inr (plain_result (JStr ''GetCountry'') REMOVED ''Operation may have been removed from API'')
   \<and> validate_operation country_parse (\<lambda>n. Some country_mock_file)
        (\<lambda>n q. Resolved True 200 (Inr (JObj [(''data'', JObj [])]))) (\<lambda>v. []) getCountry
       = Inr \<lparr>vr_operationName = JStr ''GetCountry'', vr_status = DRIFT,
              vr_message = ''Schema drift: 3 removed'',
              vr_added = Some [],
              vr_removed = Some [''country'', ''country.code'', ''country.name'']\<rparr>"
proof -
  let ?file = "\<lambda>n :: jsval. Some country_mock_file"
  let ?es = "[JObj [(''message'', JStr ''boom'')], JObj [(''message'', JStr ''bang'')]]"
  let ?failed_json = "JObj [(''errors'', JArr ?es), (''data'', country_live)]"
  let ?gone_json = "JObj [(''data'', JNull)]"
  let ?empty_json = "JObj [(''data'', JObj [])]"
  let ?lost = "\<lambda>(n :: jsval) (q :: jsval). Rejected ''socket hang up''"
  let ?down = "\<lambda>(n :: jsval) (q :: jsval). Resolved False 503 (Inl [])"
  let ?failed = "\<lambda>(n :: jsval) (q :: jsval). Resolved True 200 (Inr ?failed_json)"
  let ?gone = "\<lambda>(n :: jsval) (q :: jsval). Resolved True 200 (Inr ?gone_json)"
  let ?empty = "\<lambda>(n :: jsval) (q :: jsval). Resolved True 200 (Inr ?empty_json)"
  have n: "operationName getCountry = JStr ''GetCountry''"
    by (simp add: getCountry_def)
  have h0: "\<not> truthy (getMockData country_parse ((\<lambda>n. None) (operationName getCountry)))"
    by (simp add: getMockData_def)
  have h1: "truthy (getMockData country_parse (?file (operationName getCountry)))"
    by code_simp
  have m: "getMockData country_parse (?file (operationName getCountry)) = country_mock"
    by code_simp
  have s503: "''Live server returned errors: HTTP '' @ show_nat 503
               = ''Live server returned errors: HTTP 503''"
    by code_simp
  have e1: "get_prop ?failed_json ''errors'' = Some (JArr ?es)"
    by code_simp
  have e2: "error_messages ?es = Some [JStr ''boom'', JStr ''bang'']"
    by code_simp
  have e3: "''Live server returned errors: ''
               @ join_with '', '' (map (message_text (\<lambda>v. [])) [JStr ''boom'', JStr ''bang''])
             = ''Live server returned errors: boom, bang''"
    by code_simp
  have g1: "get_prop ?gone_json ''errors'' = Some JUndefined"
    by code_simp
  have g2: "get_prop ?gone_json ''data'' = Some JNull"
    by code_simp
  have p1: "get_prop ?empty_json ''errors'' = Some JUndefined"
    by code_simp
  have p2: "get_prop ?empty_json ''data'' = Some (JObj [])"
    by code_simp
  have p3: "comparison_result (JStr ''GetCountry'') (compareSchemas country_mock (JObj []))
       = \<lparr>vr_operationName = JStr ''GetCountry'', vr_status = DRIFT,
              vr_message = ''Schema drift: 3 removed'',
              vr_added = Some [],
              vr_removed = Some [''country'', ''country.code'', ''country.name'']\<rparr>"
    by code_simp
  note missing = validate_operation_precedence
      [where parse = country_parse and readMock = "\<lambda>n. None" and oper = getCountry
         and fetch = ?lost and to_string = "\<lambda>v. []"]
  note down = validate_operation_precedence
      [where parse = country_parse and readMock = ?file and oper = getCountry
         and fetch = ?down and to_string = "\<lambda>v. []" and status = 503 and body = "Inl []"]
  note failed = validate_operation_precedence
      [where parse = country_parse and readMock = ?file and oper = getCountry
         and fetch = ?failed and to_string = "\<lambda>v. []" and status = 200 and json = ?failed_json
         and es = ?es and ms = "[JStr ''boom'', JStr ''bang'']"]
  note gone = validate_operation_precedence
      [where parse = country_parse and readMock = ?file and oper = getCountry
         and fetch = ?gone and to_string = "\<lambda>v. []" and status = 200 and json = ?gone_json
         and errs = JUndefined and d = JNull]
  note empty = validate_operation_precedence
      [where parse = country_parse and readMock = ?file and oper = getCountry
         and fetch = ?empty and to_string = "\<lambda>v. []" and status = 200 and json = ?empty_json
         and errs = JUndefined and d = "JObj []"]
  from missing h0 have r0:
    "validate_operation country_parse (\<lambda>n. None) ?lost (\<lambda>v. []) getCountry
       = Inr (plain_result (operationName getCountry) DRIFT ''Mock file not found or couldn't parse data'')"
    by blast
  from down h1 have r1:
    "validate_operation country_parse ?file ?down (\<lambda>v. []) getCountry
       = Inr (plain_result (operationName getCountry) ERROR
                (''Live server returned errors: HTTP '' @ show_nat 503))"
    by blast
  from failed h1 e1 e2 have r2:
    "validate_operation country_parse ?file ?failed (\<lambda>v. []) getCountry
       = Inr (plain_result (operationName getCountry) ERROR
                (''Live server returned errors: ''
                 @ join_with '', '' (map (message_text (\<lambda>v. [])) [JStr ''boom'', JStr ''bang''])))"
    by blast
  have nu: "\<not> truthy JUndefined" "\<not> truthy JNull" "truthy (JObj [])"
    by simp_all
  from gone h1 g1 g2 nu have r3:
    "validate_operation country_parse ?file ?gone (\<lambda>v. []) getCountry
       = Inr (plain_result (operationName getCountry) REMOVED
                ''Operation may have been removed from API'')"
    by blast
  from empty h1 p1 p2 nu have r4:
    "validate_operation country_parse ?file ?empty (\<lambda>v. []) getCountry
       = Inr (comparison_result (operationName getCountry)
                (compareSchemas (getMockData country_parse (?file (operationName getCountry)))
                   (JObj [])))"
    by blast
  note t0 = r0 [unfolded n]
  note t1 = r1 [unfolded n s503]
  note t2 = r2 [unfolded n e3]
  note t3 = r3 [unfolded n]
  note t4 = r4 [unfolded m, unfolded n p3]
  show ?thesis
    by (rule conjI [OF h0 conjI [OF t0 conjI [OF h1 conjI [OF t1 conjI [OF t2 conjI [OF t3 t4]]]]]])
qed

section \<open>The field paths\<close>

lemma set_foldl_set_add: "set (foldl set_add acc xs) = set acc \<union> set xs"
  by (induction xs arbitrary: acc) (auto simp: set_add_def)

lemma distinct_foldl_set_add: "distinct acc \<Longrightarrow> distinct (foldl set_add acc xs)"
  by (induction xs arbitrary: acc) (auto simp: set_add_def)

lemma set_foldl_collect:
  "set (foldl (\<lambda>paths x. foldl set_add paths (g x)) acc xs) = set acc \<union> (\<Union>x \<in> set xs. set (g x))"
  by (induction xs arbitrary: acc) (auto simp: set_foldl_set_add)

lemma distinct_foldl_collect:
  "distinct acc \<Longrightarrow> distinct (foldl (\<lambda>paths x. foldl set_add paths (g x)) acc xs)"
  by (induction xs arbitrary: acc) (auto simp: distinct_foldl_set_add)

lemma object_turn:
  "(let fieldPath = fp; paths1 = set_add paths fieldPath
    in case lookup of Some v \<Rightarrow> foldl set_add paths1 (E v fieldPath) | None \<Rightarrow> paths1)
   = foldl set_add paths (fp # (case lookup of Some v \<Rightarrow> E v fp | None \<Rightarrow> []))"
  by (simp add: Let_def split: option.splits)

lemma extractFieldPaths_JObj:
  "extractFieldPaths (JObj kvs) prefix =
     foldl (\<lambda>paths key. foldl set_add paths
              (field_path prefix key
               # (case map_of kvs key of
                    Some v \<Rightarrow> extractFieldPaths v (field_path prefix key) | None \<Rightarrow> [])))
       [] (map fst kvs)"
  by (simp only: extractFieldPaths.simps object_turn field_path_def)

lemma first_element_paths_JObj:
  "first_element_paths (JObj kvs) prefix =
     foldl (\<lambda>paths key. foldl set_add paths
              (field_path prefix key
               # (case map_of kvs key of
                    Some v \<Rightarrow> first_element_paths v (field_path prefix key) | None \<Rightarrow> [])))
       [] (map fst kvs)"
  by (simp only: first_element_paths.simps object_turn field_path_def)

lemma path_from_Nil: "path_from prefix [] = prefix"
  by (simp add: path_from_def)

lemma path_from_Cons: "path_from prefix (k # ks) = path_from (field_path prefix k) ks"
  by (simp add: path_from_def)

lemma extractFieldPaths_distinct: "distinct (extractFieldPaths v prefix)"
proof (cases v)
  case (JArr xs)
  then show ?thesis by (simp add: distinct_foldl_collect)
next
  case (JObj kvs)
  have "distinct (foldl (\<lambda>paths key. foldl set_add paths
              (field_path prefix key
               # (case map_of kvs key of
                    Some v \<Rightarrow> extractFieldPaths v (field_path prefix key) | None \<Rightarrow> [])))
       [] (map fst kvs))"
    by (rule distinct_foldl_collect) simp
  then show ?thesis by (simp only: JObj extractFieldPaths_JObj)
qed simp_all

lemma extractFieldPaths_chains:
  "set (extractFieldPaths v prefix) = {path_from prefix ks | ks. key_chain v ks}"
proof (induction v prefix rule: extractFieldPaths.induct)
  case (1 prefix)
  then show ?case by (auto elim: key_chain_JNull)
next
  case (2 prefix)
  then show ?case by (auto elim: key_chain_JUndefined)
next
  case (3 items prefix)
  have "set (extractFieldPaths (JArr items) prefix)
          = (\<Union>item \<in> set items. set (extractFieldPaths item prefix))"
    by (simp add: set_foldl_collect)
  also have "\<dots> = (\<Union>item \<in> set items. {path_from prefix ks | ks. key_chain item ks})"
    using 3 by simp
  also have "\<dots> = {path_from prefix ks | ks. key_chain (JArr items) ks}"
    by (auto intro: key_chain.element elim: key_chain_JArr)
  finally show ?case .
next
  case (4 kvs prefix)
  have IH: "set (extractFieldPaths v (field_path prefix key))
              = {path_from (field_path prefix key) ks | ks. key_chain v ks}"
    if "key \<in> set (map fst kvs)" "map_of kvs key = Some v" for key v
    using 4 [OF that(1) refl refl that(2)] by (simp add: field_path_def)
  have keys: "key \<in> set (map fst kvs) \<longleftrightarrow> (\<exists>v. map_of kvs key = Some v)" for key
    by (metis domIff dom_map_of_conv_image_fst image_set not_Some_eq)
  have "set (extractFieldPaths (JObj kvs) prefix)
          = (\<Union>key \<in> set (map fst kvs).
               set (field_path prefix key
                    # (case map_of kvs key of
                         Some v \<Rightarrow> extractFieldPaths v (field_path prefix key) | None \<Rightarrow> [])))"
    by (simp only: extractFieldPaths_JObj set_foldl_collect) simp
  also have "\<dots> = {path_from prefix ks | ks. key_chain (JObj kvs) ks}"
  proof (intro set_eqI iffI)
    fix p
    assume "p \<in> (\<Union>key \<in> set (map fst kvs).
               set (field_path prefix key
                    # (case map_of kvs key of
                         Some v \<Rightarrow> extractFieldPaths v (field_path prefix key) | None \<Rightarrow> [])))"
    then obtain key where key: "key \<in> set (map fst kvs)"
      and p: "p = field_path prefix key
              \<or> p \<in> set (case map_of kvs key of
                           Some v \<Rightarrow> extractFieldPaths v (field_path prefix key) | None \<Rightarrow> [])"
      by auto
    from key keys obtain v where v: "map_of kvs key = Some v" by blast
    from p show "p \<in> {path_from prefix ks | ks. key_chain (JObj kvs) ks}"
    proof
      assume "p = field_path prefix key"
      then have "p = path_from prefix [key]" by (simp add: path_from_Cons path_from_Nil)
      moreover have "key_chain (JObj kvs) [key]" using v by (rule key_chain.here)
      ultimately show ?thesis by blast
    next
      assume "p \<in> set (case map_of kvs key of
                           Some v \<Rightarrow> extractFieldPaths v (field_path prefix key) | None \<Rightarrow> [])"
      with v have "p \<in> set (extractFieldPaths v (field_path prefix key))" by simp
      with IH [OF key v] obtain ks where ks: "p = path_from (field_path prefix key) ks" "key_chain v ks"
        by blast
      from ks(1) have "p = path_from prefix (key # ks)" by (simp add: path_from_Cons)
      moreover have "key_chain (JObj kvs) (key # ks)" using v ks(2) by (rule key_chain.deeper)
      ultimately show ?thesis by blast
    qed
  next
    fix p
    assume "p \<in> {path_from prefix ks | ks. key_chain (JObj kvs) ks}"
    then obtain ks where ks: "p = path_from prefix ks" "key_chain (JObj kvs) ks" by blast
    from ks(2) show "p \<in> (\<Union>key \<in> set (map fst kvs).
               set (field_path prefix key
                    # (case map_of kvs key of
                         Some v \<Rightarrow> extractFieldPaths v (field_path prefix key) | None \<Rightarrow> [])))"
    proof (cases rule: key_chain.cases)
      case (here k v)
      then have m: "map_of kvs k = Some v" by simp
      with keys have "k \<in> set (map fst kvs)" by blast
      then have k: "k \<in> set (map fst kvs)" .
      from here ks(1) have "p = field_path prefix k"
        by (simp add: path_from_Cons path_from_Nil)
      then have "p \<in> set (field_path prefix k
                    # (case map_of kvs k of
                         Some v \<Rightarrow> extractFieldPaths v (field_path prefix k) | None \<Rightarrow> []))"
        by simp
      with k show ?thesis by (rule UN_I)
    next
      case (deeper k v ks')
      then have m: "map_of kvs k = Some v" by simp
      with keys have k: "k \<in> set (map fst kvs)" by blast
      from deeper ks(1) have "p = path_from (field_path prefix k) ks'" by (simp add: path_from_Cons)
      with IH [OF k m] deeper have "p \<in> set (extractFieldPaths v (field_path prefix k))" by blast
      with m have "p \<in> set (field_path prefix k
                    # (case map_of kvs k of
                         Some v \<Rightarrow> extractFieldPaths v (field_path prefix k) | None \<Rightarrow> []))"
        by simp
      with k show ?thesis by (rule UN_I)
    qed
  qed
  finally show ?case .
next
  case (5 b prefix)
  then show ?case by (auto elim: key_chain_JBool)
next
  case (6 n prefix)
  then show ?case by (auto elim: key_chain_JNum)
next
  case (7 s prefix)
  then show ?case by (auto elim: key_chain_JStr)
qed

lemma path_from_nonempty:
  "prefix \<noteq> [] \<Longrightarrow> path_from prefix ks = prefix @ concat (map (\<lambda>k. ''.'' @ k) ks)"
proof (induction ks arbitrary: prefix)
  case Nil
  then show ?case by (simp add: path_from_Nil)
next
  case (Cons k ks)
  have "field_path prefix k \<noteq> []" using Cons.prems by (simp add: field_path_def)
  from Cons.IH [OF this] Cons.prems show ?case
    by (simp add: path_from_Cons field_path_def)
qed

lemma join_with_dots: "join_with ''.'' (k # ks) = k @ concat (map (\<lambda>k. ''.'' @ k) ks)"
  by (induction ks arbitrary: k) simp_all

lemma path_from_join: "k \<noteq> [] \<Longrightarrow> path_from [] (k # ks) = join_with ''.'' (k # ks)"
  by (simp add: path_from_Cons field_path_def path_from_nonempty join_with_dots)

lemma first_element_paths_subset:
  "set (first_element_paths v prefix) \<subseteq> set (extractFieldPaths v prefix)"
proof (induction v prefix rule: first_element_paths.induct)
  case (3 xs prefix)
  show ?case
  proof (cases xs)
    case Nil
    then show ?thesis by simp
  next
    case (Cons x rest)
    from 3 [OF Cons] have "set (first_element_paths x prefix) \<subseteq> set (extractFieldPaths x prefix)" .
    also have "\<dots> \<subseteq> set (extractFieldPaths (JArr xs) prefix)"
      by (simp only: Cons extractFieldPaths.simps set_foldl_collect) auto
    finally show ?thesis by (simp add: Cons)
  qed
next
  case (4 kvs prefix)
  have IH: "set (first_element_paths v (field_path prefix key))
              \<subseteq> set (extractFieldPaths v (field_path prefix key))"
    if "key \<in> set (map fst kvs)" "map_of kvs key = Some v" for key v
    using 4 [OF that(1) refl refl that(2)] by (simp add: field_path_def)
  have "set (field_path prefix key
             # (case map_of kvs key of
                  Some v \<Rightarrow> first_element_paths v (field_path prefix key) | None \<Rightarrow> []))
        \<subseteq> set (field_path prefix key
             # (case map_of kvs key of
                  Some v \<Rightarrow> extractFieldPaths v (field_path prefix key) | None \<Rightarrow> []))"
    if "key \<in> set (map fst kvs)" for key
    using IH [OF that] by (cases "map_of kvs key") auto
  then have "(\<Union>key \<in> set (map fst kvs).
            set (field_path prefix key
             # (case map_of kvs key of
                  Some v \<Rightarrow> first_element_paths v (field_path prefix key) | None \<Rightarrow> [])))
        \<subseteq> (\<Union>key \<in> set (map fst kvs).
            set (field_path prefix key
             # (case map_of kvs key of
                  Some v \<Rightarrow> extractFieldPaths v (field_path prefix key) | None \<Rightarrow> [])))"
    by (rule UN_mono [OF subset_refl])
  then show ?case
    by (simp only: first_element_paths_JObj extractFieldPaths_JObj set_foldl_collect set_simps(1)
        Un_empty_left)
qed simp_all

text \<open>
  Against claim C8 as stated: of an array of two objects \<^verbatim>\<open>extractFieldPaths\<close> reports the
  keys of both, while the walk of the fingerprinter enters the first only; and below an
  array the path continues with no marker for the position.
\<close>

theorem extractFieldPaths_first_element_counterexample:
  "extractFieldPaths (JArr [JObj [(''a'', JNum 1)], JObj [(''b'', JNum 2)]]) [] = [''a'', ''b'']
   \<and> first_element_paths (JArr [JObj [(''a'', JNum 1)], JObj [(''b'', JNum 2)]]) [] = [''a'']
   \<and> getStructure (JArr [JObj [(''a'', JNum 1)], JObj [(''b'', JNum 2)]])
       = SArr [SStr ''array'', SObj [(''a'', SStr ''number'')]]
   \<and> extractFieldPaths (JObj [(''items'', JArr [JObj [(''x'', JNum 1)]])]) []
       = [''items'', ''items.x'']"
  by code_simp

text \<open>
  Claim C8, amended. The field paths of a value are exactly the paths of its key chains,
  each once: a chain descends through an object by a key and through an array by any of
  its elements, the array contributing no segment; the path of a chain whose first key is
  not empty is its keys joined by dots. Every path that the walk of the fingerprinter
  (first element only) would collect is among them.
\<close>

theorem extractFieldPaths_key_chains:
  "set (extractFieldPaths v prefix) = {path_from prefix ks | ks. key_chain v ks}
   \<and> distinct (extractFieldPaths v prefix)
   \<and> (k \<noteq> [] \<longrightarrow> path_from [] (k # ks) = join_with ''.'' (k # ks))
   \<and> (x \<in> set xs \<and> key_chain x ks' \<longrightarrow> key_chain (JArr xs) ks')
   \<and> set (first_element_paths v prefix) \<subseteq> set (extractFieldPaths v prefix)"
proof -
  have a: "k \<noteq> [] \<longrightarrow> path_from [] (k # ks) = join_with ''.'' (k # ks)"
    by (simp add: path_from_join)
  have b: "x \<in> set xs \<and> key_chain x ks' \<longrightarrow> key_chain (JArr xs) ks'"
    by (auto intro: key_chain.element)
  show ?thesis
    by (rule conjI [OF extractFieldPaths_chains conjI [OF extractFieldPaths_distinct
          conjI [OF a conjI [OF b first_element_paths_subset]]]])
qed

theorem extractFieldPaths_key_chains_witness:
  "''country'' \<noteq> []
   \<and> path_from [] [''country'', ''capital''] = ''country.capital''
   \<and> JObj [(''b'', JNum 2)] \<in> set [JObj [(''a'', JNum 1)], JObj [(''b'', JNum 2)]]
   \<and> key_chain (JObj [(''b'', JNum 2)]) [''b'']
   \<and> key_chain (JArr [JObj [(''a'', JNum 1)], JObj [(''b'', JNum 2)]]) [''b'']
   \<and> ''b'' \<in> set (extractFieldPaths (JArr [JObj [(''a'', JNum 1)], JObj [(''b'', JNum 2)]]) [])"
proof -
  let ?v = "JArr [JObj [(''a'', JNum 1)], JObj [(''b'', JNum 2)]]"
  note t = extractFieldPaths_key_chains
      [of ?v "[]" "''country''" "[''capital'']" "JObj [(''b'', JNum 2)]"
          "[JObj [(''a'', JNum 1)], JObj [(''b'', JNum 2)]]" "[''b'']"]
  have h1: "''country'' \<noteq> []" by simp
  have h2: "JObj [(''b'', JNum 2)] \<in> set [JObj [(''a'', JNum 1)], JObj [(''b'', JNum 2)]]" by simp
  have h3: "key_chain (JObj [(''b'', JNum 2)]) [''b'']"
    by (rule key_chain.here [of _ _ "JNum 2"]) simp
  from t h1 have p: "path_from [] [''country'', ''capital''] = join_with ''.'' [''country'', ''capital'']"
    by blast
  from t h2 h3 have c: "key_chain ?v [''b'']" by blast
  from t have "set (extractFieldPaths ?v []) = {path_from [] ks | ks. key_chain ?v ks}" by blast
  with c have "path_from [] [''b''] \<in> set (extractFieldPaths ?v [])" by blast
  then have m: "''b'' \<in> set (extractFieldPaths ?v [])"
    by (simp add: path_from_def field_path_def)
  from h1 h2 h3 p c m show ?thesis by simp
qed

section \<open>The registry builder\<close>

lemma ends_with_iff: "ends_with suffix s = (\<exists>n. s = n @ suffix)"
proof
  assume "ends_with suffix s"
  then have "s = take (length s - length suffix) s @ suffix"
    by (metis append_take_drop_id ends_with_def)
  then show "\<exists>n. s = n @ suffix" ..
next
  assume "\<exists>n. s = n @ suffix"
  then show "ends_with suffix s" by (auto simp: ends_with_def)
qed

lemma replace_first_suffix:
  "list_all is_word_char n \<Longrightarrow> replace_first ''.mock.ts'' [] (n @ ''.mock.ts'') = n"
proof (induction n)
  case Nil
  then show ?case by (simp add: starts_with_def)
next
  case (Cons c n)
  then have "c \<noteq> CHR ''.''" by (auto simp: is_word_char_def)
  then have "\<not> starts_with ''.mock.ts'' ((c # n) @ ''.mock.ts'')"
    by (simp add: starts_with_def)
  with Cons show ?case by simp
qed

lemma listMocks_set: "set (listMocks st) = fst ` set (registry_entries st)"
  by (simp add: listMocks_def set_foldl_set_add)

lemma mockFiles_set:
  "set (mockFiles files) = {f \<in> set files. ends_with ''.mock.ts'' f \<and> f \<noteq> ''mock-registry.ts''}"
  by (simp add: mockFiles_def)

lemma registry_not_mock: "\<not> ends_with ''.mock.ts'' ''mock-registry.ts''"
  by (simp add: ends_with_def)

lemma image_strip_suffix:
  assumes "\<forall>f \<in> F. \<exists>n. f = n @ suf \<and> r (n @ suf) = n"
  shows "r ` F = {n. n @ suf \<in> F}"
proof (intro set_eqI iffI)
  fix n assume "n \<in> r ` F"
  then obtain f where f: "f \<in> F" "n = r f" by blast
  with assms obtain m where "f = m @ suf" "r (m @ suf) = m" by blast
  with f show "n \<in> {n. n @ suf \<in> F}" by simp
next
  fix n assume "n \<in> {n. n @ suf \<in> F}"
  then have mem: "n @ suf \<in> F" by simp
  with assms obtain m where m: "n @ suf = m @ suf" "r (m @ suf) = m" by blast
  from m(1) have "m = n" by simp
  with m(2) have "r (n @ suf) = n" by simp
  with mem show "n \<in> r ` F" by force
qed

lemma mapEntries_fst: "fst ` set (mapEntries fs) = replace_first ''.mock.ts'' [] ` set fs"
  by (simp add: mapEntries_def Let_def image_image)

lemma mapEntries_keys:
  assumes "\<forall>f \<in> set fs. \<exists>n. f = n @ ''.mock.ts'' \<and> list_all is_word_char n"
  shows "fst ` set (mapEntries fs) = {n. n @ ''.mock.ts'' \<in> set fs}"
proof -
  have "\<forall>f \<in> set fs. \<exists>n. f = n @ ''.mock.ts''
          \<and> replace_first ''.mock.ts'' [] (n @ ''.mock.ts'') = n"
  proof
    fix f assume "f \<in> set fs"
    with assms have "\<exists>n. f = n @ ''.mock.ts'' \<and> list_all is_word_char n" by (rule bspec)
    then obtain n where n: "f = n @ ''.mock.ts''" and w: "list_all is_word_char n"
      by (elim exE conjE)
    from w have "replace_first ''.mock.ts'' [] (n @ ''.mock.ts'') = n"
      by (rule replace_first_suffix)
    with n show "\<exists>n. f = n @ ''.mock.ts''
          \<and> replace_first ''.mock.ts'' [] (n @ ''.mock.ts'') = n"
      by (intro exI conjI)
  qed
  then have "replace_first ''.mock.ts'' [] ` set fs = {n. n @ ''.mock.ts'' \<in> set fs}"
    by (rule image_strip_suffix)
  then show ?thesis by (simp only: mapEntries_fst)
qed

text \<open>
  Against claim C10 as stated: with no mock artifact in the directory the rebuild returns
  before it writes anything, and the registry keeps the entry it had.
\<close>

theorem updateMockRegistry_empty_counterexample:
  "listMocks (updateMockRegistry
      \<lparr>dir_files = [''mock-registry.ts'', ''generated-types.ts''],
       registry_entries = [(''GetCountry'', ''GetCountryMock'')]\<rparr>) = [''GetCountry'']
   \<and> mockFiles [''mock-registry.ts'', ''generated-types.ts''] = []
   \<and> \<not> ends_with ''.mock.ts'' ''mock-registry.ts''
   \<and> \<not> ends_with ''.mock.ts'' ''generated-types.ts''"
  by code_simp

text \<open>
  Claim C10, amended. When the directory holds at least one mock artifact and the
  operation names of the artifacts are made of word characters, the keys of the rebuilt
  registry (what \<^verbatim>\<open>listMocks\<close> reports and \<^verbatim>\<open>hasMock\<close> tests) are exactly the operation
  names \<open>n\<close> for which a file \<open>n.mock.ts\<close> exists. When it holds none, the rebuild leaves
  the registry as it was.
\<close>

theorem updateMockRegistry_keys:
  "(mockFiles (dir_files st) \<noteq> []
    \<and> (\<forall>f \<in> set (dir_files st). ends_with ''.mock.ts'' f \<longrightarrow>
           list_all is_word_char (take (length f - 8) f))
    \<longrightarrow> set (listMocks (updateMockRegistry st)) = artifact_names (dir_files st)
        \<and> (\<forall>n. hasMock (updateMockRegistry st) n = (n @ ''.mock.ts'' \<in> set (dir_files st))))
   \<and> (mockFiles (dir_files st) = [] \<longrightarrow> updateMockRegistry st = st)
   \<and> ((mockFiles (dir_files st) = []) = (artifact_names (dir_files st) = {}))"
proof -
  have names: "artifact_names files = {n. n @ ''.mock.ts'' \<in> set (mockFiles files)}" for files
  proof -
    have "n @ ''.mock.ts'' \<noteq> ''mock-registry.ts''" for n
      using registry_not_mock by (metis ends_with_iff)
    then show ?thesis by (auto simp: artifact_names_def mockFiles_set ends_with_iff)
  qed
  have a: "set (listMocks (updateMockRegistry st)) = artifact_names (dir_files st)
        \<and> (\<forall>n. hasMock (updateMockRegistry st) n = (n @ ''.mock.ts'' \<in> set (dir_files st)))"
    if ne: "mockFiles (dir_files st) \<noteq> []"
      and w: "\<forall>f \<in> set (dir_files st). ends_with ''.mock.ts'' f \<longrightarrow>
           list_all is_word_char (take (length f - 8) f)"
  proof -
    have "\<forall>f \<in> set (mockFiles (dir_files st)). \<exists>n. f = n @ ''.mock.ts'' \<and> list_all is_word_char n"
    proof
      fix f assume "f \<in> set (mockFiles (dir_files st))"
      then have f: "f \<in> set (dir_files st)" "ends_with ''.mock.ts'' f" by (simp_all add: mockFiles_set)
      then obtain n where n: "f = n @ ''.mock.ts''" by (auto simp: ends_with_iff)
      from w f have "list_all is_word_char (take (length f - 8) f)" by blast
      with n have "list_all is_word_char n" by simp
      with n show "\<exists>n. f = n @ ''.mock.ts'' \<and> list_all is_word_char n" by blast
    qed
    from mapEntries_keys [OF this]
    have k: "fst ` set (mapEntries (mockFiles (dir_files st))) = artifact_names (dir_files st)"
      by (simp only: names)
    from ne k have s: "set (listMocks (updateMockRegistry st)) = artifact_names (dir_files st)"
      by (simp add: listMocks_set updateMockRegistry_def)
    then show ?thesis by (simp add: hasMock_def artifact_names_def)
  qed
  have b: "mockFiles (dir_files st) = [] \<longrightarrow> updateMockRegistry st = st"
    by (simp add: updateMockRegistry_def)
  have c: "(mockFiles (dir_files st) = []) = (artifact_names (dir_files st) = {})"
  proof -
    have "(mockFiles (dir_files st) = []) = (set (mockFiles (dir_files st)) = {})" by simp
    also have "\<dots> = (artifact_names (dir_files st) = {})"
      unfolding names mockFiles_set by (auto simp: ends_with_iff)
    finally show ?thesis .
  qed
  from a b c show ?thesis by blast
qed

theorem updateMockRegistry_keys_witness:
  "mockFiles (dir_files demo_dir) \<noteq> []
   \<and> list_all is_word_char ''GetCountry'' \<and> list_all is_word_char ''GetContinent''
   \<and> listMocks (updateMockRegistry demo_dir) = [''GetContinent'', ''GetCountry'']
   \<and> artifact_names (dir_files demo_dir) = {''GetContinent'', ''GetCountry''}
   \<and> hasMock (updateMockRegistry demo_dir) ''GetCountry''"
proof -
  have h1: "mockFiles (dir_files demo_dir) \<noteq> []"
    by code_simp
  have h2: "\<forall>f \<in> set (dir_files demo_dir). ends_with ''.mock.ts'' f \<longrightarrow>
           list_all is_word_char (take (length f - 8) f)"
    by code_simp
  have h3: "list_all is_word_char ''GetCountry'' \<and> list_all is_word_char ''GetContinent''"
    by code_simp
  have l: "listMocks (updateMockRegistry demo_dir) = [''GetContinent'', ''GetCountry'']"
    by code_simp
  have f: "''GetCountry'' @ ''.mock.ts'' \<in> set (dir_files demo_dir)"
    by code_simp
  have t: "set (listMocks (updateMockRegistry demo_dir)) = artifact_names (dir_files demo_dir)
        \<and> (\<forall>n. hasMock (updateMockRegistry demo_dir) n
                = (n @ ''.mock.ts'' \<in> set (dir_files demo_dir)))"
    by (rule mp [OF updateMockRegistry_keys [of demo_dir, THEN conjunct1] conjI [OF h1 h2]])
  from t [THEN conjunct1] l have a: "artifact_names (dir_files demo_dir) = {''GetContinent'', ''GetCountry''}"
    by simp
  from t [THEN conjunct2, rule_format, of "''GetCountry''"] f
  have m: "hasMock (updateMockRegistry demo_dir) ''GetCountry''"
    by (simp only:)
  show ?thesis
    by (rule conjI [OF h1 conjI [OF h3 [THEN conjunct1] conjI [OF h3 [THEN conjunct2]
          conjI [OF l conjI [OF a m]]]]])
qed

section \<open>The structural fingerprint\<close>























end
